theory Spec2Isabelle
  imports Complex_Main
begin

section \<open>Common data: errors, doubles, two-dimensional arrays\<close>

text \<open>
  The exceptions of the Python code that the model can reach.
\<close>

datatype py_error = ZeroDivisionError | ValueError | OverflowError

subsection \<open>Python floats that the pipeline multiplies by an integer\<close>

text \<open>
  The pipeline uses floats in three places that decide integer results:
  \<^verbatim>\<open>math.ceil(kernel_size**2 * min_homogeneity)\<close>, \<open>int(n_patches * train_ratio)\<close> and
  \<open>int(n_patches * val_ratio)\<close>. A positive finite IEEE-754 double is the dyadic rational
  \<open>mant / 2 ^ nexp\<close>. The product of a Python int and a double converts the int to a
  double (round to nearest, ties to even, 53 significant bits) and rounds the exact product
  the same way. Overflow to infinity and subnormal results are out of reach of the values the
  pipeline multiplies (counts of patches and 81) and are not modelled.
\<close>

record dbl =
  mant :: nat
  nexp :: nat

fun bit_length :: "nat \<Rightarrow> nat" where
  "bit_length n = (if n = 0 then 0 else Suc (bit_length (n div 2)))"

declare bit_length.simps [simp del]

definition round_to_double :: "nat \<Rightarrow> nat" where
  "round_to_double N =
     (let s = bit_length N - 53;
          q = N div 2 ^ s;
          r = N mod 2 ^ s
      in (if 2 * r > 2 ^ s \<or> (2 * r = 2 ^ s \<and> odd q) then q + 1 else q) * 2 ^ s)"

definition int_times_double :: "nat \<Rightarrow> dbl \<Rightarrow> dbl" where
  "int_times_double n d =
     \<lparr>mant = round_to_double (round_to_double n * mant d), nexp = nexp d\<rparr>"

definition py_int :: "dbl \<Rightarrow> nat" where
  "py_int d = mant d div 2 ^ nexp d"

definition math_ceil :: "dbl \<Rightarrow> nat" where
  "math_ceil d = (mant d + 2 ^ nexp d - 1) div 2 ^ nexp d"

text \<open>The literals \<open>0.7\<close>, \<open>0.15\<close> and \<open>0.8\<close> as the doubles Python reads them as.\<close>

definition double_0_7 :: dbl where
  "double_0_7 = \<lparr>mant = 3152519739159347, nexp = 52\<rparr>"

definition double_0_15 :: dbl where
  "double_0_15 = \<lparr>mant = 5404319552844595, nexp = 55\<rparr>"

definition double_0_8 :: dbl where
  "double_0_8 = \<lparr>mant = 3602879701896397, nexp = 52\<rparr>"

subsection \<open>Rasters and NumPy arrays\<close>

text \<open>
  A single-band raster and a two-dimensional NumPy array are a shape and the cell values
  indexed by row and column. Only cells inside the shape exist; no theorem reads another
  cell. Pixel values are integers: the label rasters are int16, the filter and the counts
  only compare and copy them, so no arithmetic on pixel values can wrap.
\<close>

record array2d =
  nrows :: nat
  ncols :: nat
  px :: "nat \<Rightarrow> nat \<Rightarrow> int"

definition background :: int where
  "background = - 99"

text \<open>\<open>band.ReadAsArray(xoff, yoff, xsize, ysize)\<close> for a window inside the raster.\<close>

definition ReadAsArray :: "array2d \<Rightarrow> nat \<Rightarrow> nat \<Rightarrow> nat \<Rightarrow> nat \<Rightarrow> array2d" where
  "ReadAsArray ds xoff yoff xsize ysize =
     \<lparr>nrows = ysize, ncols = xsize, px = (\<lambda>y x. px ds (yoff + y) (xoff + x))\<rparr>"

text \<open>\<open>band.WriteArray(arr, xoff, yoff)\<close>: the cells under the array are replaced.\<close>

definition WriteArray :: "array2d \<Rightarrow> array2d \<Rightarrow> nat \<Rightarrow> nat \<Rightarrow> array2d" where
  "WriteArray ds arr xoff yoff =
     ds\<lparr>px := (\<lambda>y x. if yoff \<le> y \<and> y < yoff + nrows arr \<and> xoff \<le> x \<and> x < xoff + ncols arr
                      then px arr (y - yoff) (x - xoff) else px ds y x)\<rparr>"

text \<open>
  The slice \<open>a[y0:y1, x0:x1]\<close> with non-negative bounds; NumPy clips the bounds to the
  shape.
\<close>

definition slice2d :: "array2d \<Rightarrow> nat \<Rightarrow> nat \<Rightarrow> nat \<Rightarrow> nat \<Rightarrow> array2d" where
  "slice2d a y0 y1 x0 x1 =
     \<lparr>nrows = min y1 (nrows a) - min y0 (nrows a),
      ncols = min x1 (ncols a) - min x0 (ncols a),
      px = (\<lambda>y x. px a (y0 + y) (x0 + x))\<rparr>"

text \<open>An array given by its rows, for concrete inputs.\<close>

definition of_rows :: "int list list \<Rightarrow> array2d" where
  "of_rows xss =
     \<lparr>nrows = length xss, ncols = (case xss of [] \<Rightarrow> 0 | xs # _ \<Rightarrow> length xs),
      px = (\<lambda>y x. xss ! y ! x)\<rparr>"

section \<open>The strict majority (homogeneity) filter\<close>

text \<open>
  \<open>np.sum\<close> over the cells of rows \<open>y0 \<le> y < y1\<close> and columns \<open>x0 \<le> x < x1\<close> that
  satisfy a test, and the inner double loop of the filter: it counts the cells of the window
  that hold the centre's value and are not background.
\<close>

definition count_cells :: "(nat \<Rightarrow> nat \<Rightarrow> bool) \<Rightarrow> nat \<Rightarrow> nat \<Rightarrow> nat \<Rightarrow> nat \<Rightarrow> nat" where
  "count_cells P y0 y1 x0 x1 =
     sum_list (map (\<lambda>y. sum_list (map (\<lambda>x. if P y x then 1 else 0) [x0..<x1])) [y0..<y1])"

definition kernel_size :: nat where
  "kernel_size = 9"

definition half_kernel :: nat where
  "half_kernel = kernel_size div 2"

definition min_required :: "dbl \<Rightarrow> nat" where
  "min_required min_homogeneity = math_ceil (int_times_double (kernel_size ^ 2) min_homogeneity)"

text \<open>
  The body of the two outer loops for the pixel \<open>(i, j)\<close>. \<open>max(0, i - half_kernel)\<close> is
  the subtraction of natural numbers, which stops at 0.
\<close>

definition filter_pixel :: "array2d \<Rightarrow> dbl \<Rightarrow> nat \<Rightarrow> nat \<Rightarrow> int" where
  "filter_pixel lc_array min_homogeneity i j =
     (let current_val = px lc_array i j in
      if current_val = background then background
      else
        let y_start = max 0 (i - half_kernel);
            y_end = min (nrows lc_array) (i + half_kernel + 1);
            x_start = max 0 (j - half_kernel);
            x_end = min (ncols lc_array) (j + half_kernel + 1);
            count = count_cells (\<lambda>y x. px lc_array y x = current_val \<and> px lc_array y x \<noteq> background)
                      y_start y_end x_start x_end
        in if count \<ge> min_required min_homogeneity then current_val else background)"

definition apply_strict_majority_filter_numba :: "array2d \<Rightarrow> dbl \<Rightarrow> array2d" where
  "apply_strict_majority_filter_numba lc_array min_homogeneity =
     \<lparr>nrows = nrows lc_array, ncols = ncols lc_array,
      px = (\<lambda>i j. if i < nrows lc_array \<and> j < ncols lc_array
                   then filter_pixel lc_array min_homogeneity i j else background)\<rparr>"

subsection \<open>The batched filter\<close>

text \<open>
  \<open>math.ceil(rows / batch_size)\<close>: the quotient is a float, and for raster dimensions
  (GDAL keeps them in 32-bit integers) its ceiling is the ceiling of the exact quotient.
  Division by zero raises; the caller tests for it.
\<close>

definition ceil_div :: "nat \<Rightarrow> nat \<Rightarrow> nat" where
  "ceil_div a b = (a + b - 1) div b"

text \<open>
  The state of the batch loop: the output band and the two counters of the statistics.
\<close>

record filter_state =
  out_ds :: array2d
  total_pixels_removed :: nat
  total_pixels_processed :: nat

text \<open>
  The body of the batch loop. Every read lies inside the raster, so \<open>ReadAsArray\<close>
  returns an array and the \<open>continue\<close> for a failed read is not taken. The source fixes
  \<open>overlap = kernel_size // 2\<close>; the body takes it as an argument so that other overlaps can
  be stated, and \<open>apply_strict_majority_filter_batched\<close> below passes the source's value.
\<close>

definition filter_batch ::
  "nat \<Rightarrow> array2d \<Rightarrow> dbl \<Rightarrow> nat \<Rightarrow> filter_state \<Rightarrow> nat \<Rightarrow> nat \<Rightarrow> filter_state" where
  "filter_batch overlap src_ds min_homogeneity batch_size st batch_y batch_x =
     (let rows = nrows src_ds;
          cols = ncols src_ds;
          y_start = batch_y * batch_size;
          y_end = min ((batch_y + 1) * batch_size) rows;
          x_start = batch_x * batch_size;
          x_end = min ((batch_x + 1) * batch_size) cols;
          y_start_read = max 0 (y_start - overlap);
          y_end_read = min rows (y_end + overlap);
          x_start_read = max 0 (x_start - overlap);
          x_end_read = min cols (x_end + overlap);
          batch_array = ReadAsArray src_ds x_start_read y_start_read
                          (x_end_read - x_start_read) (y_end_read - y_start_read);
          filtered_batch = apply_strict_majority_filter_numba batch_array min_homogeneity;
          core_y_start = y_start - y_start_read;
          core_y_end = core_y_start + (y_end - y_start);
          core_x_start = x_start - x_start_read;
          core_x_end = core_x_start + (x_end - x_start);
          core_filtered = slice2d filtered_batch core_y_start core_y_end core_x_start core_x_end;
          core_original = slice2d batch_array core_y_start core_y_end core_x_start core_x_end;
          pixels_removed =
            count_cells (\<lambda>y x. px core_original y x \<noteq> background \<and> px core_filtered y x = background)
              0 (nrows core_original) 0 (ncols core_original);
          pixels_processed =
            count_cells (\<lambda>y x. px core_original y x \<noteq> background)
              0 (nrows core_original) 0 (ncols core_original)
      in \<lparr>out_ds = WriteArray (out_ds st) core_filtered x_start y_start,
          total_pixels_removed = total_pixels_removed st + pixels_removed,
          total_pixels_processed = total_pixels_processed st + pixels_processed\<rparr>)"

text \<open>
  The whole function. \<open>fresh\<close> is what the band of the newly created GeoTIFF holds before
  any write. A batch size of 0 raises at \<open>rows / batch_size\<close>.
\<close>

definition filter_batches ::
  "nat \<Rightarrow> array2d \<Rightarrow> (nat \<Rightarrow> nat \<Rightarrow> int) \<Rightarrow> dbl \<Rightarrow> nat \<Rightarrow> py_error + filter_state" where
  "filter_batches overlap src_ds fresh min_homogeneity batch_size =
     (if batch_size = 0 then Inl ZeroDivisionError
      else
        let rows = nrows src_ds;
            cols = ncols src_ds;
            num_batches_y = ceil_div rows batch_size;
            num_batches_x = ceil_div cols batch_size;
            st0 = \<lparr>out_ds = \<lparr>nrows = rows, ncols = cols, px = fresh\<rparr>,
                   total_pixels_removed = 0, total_pixels_processed = 0\<rparr>
        in Inr (foldl (\<lambda>st batch_y.
                   foldl (\<lambda>st batch_x.
                            filter_batch overlap src_ds min_homogeneity batch_size st batch_y batch_x)
                     st [0..<num_batches_x])
                 st0 [0..<num_batches_y]))"

definition apply_strict_majority_filter_batched ::
  "array2d \<Rightarrow> (nat \<Rightarrow> nat \<Rightarrow> int) \<Rightarrow> dbl \<Rightarrow> nat \<Rightarrow> py_error + filter_state" where
  "apply_strict_majority_filter_batched src_ds fresh min_homogeneity batch_size =
     filter_batches (kernel_size div 2) src_ds fresh min_homogeneity batch_size"

text \<open>
  The core of batch \<open>(by, bx)\<close>: the pixels \<open>y_start \<le> y < y_end\<close>,
  \<open>x_start \<le> x < x_end\<close> of the loop body, which the batch writes.
\<close>

definition in_core :: "array2d \<Rightarrow> nat \<Rightarrow> nat \<Rightarrow> nat \<Rightarrow> nat \<Rightarrow> nat \<Rightarrow> bool" where
  "in_core src bs by bx y x \<longleftrightarrow>
     by * bs \<le> y \<and> y < min ((by + 1) * bs) (nrows src) \<and>
     bx * bs \<le> x \<and> x < min ((bx + 1) * bs) (ncols src)"

text \<open>Small rasters for concrete instances of the theorems.\<close>

definition example_raster :: array2d where
  "example_raster = of_rows [[- 99, 1, 1], [1, - 99, 1], [1, 1, 1]]"

definition uniform_raster :: array2d where
  "uniform_raster = \<lparr>nrows = 20, ncols = 20, px = (\<lambda>y x. 1)\<rparr>"

definition checkerboard_raster :: array2d where
  "checkerboard_raster = \<lparr>nrows = 20, ncols = 20, px = (\<lambda>y x. if even (y + x) then 1 else 2)\<rparr>"

text \<open>
  A raster of two classes in which the window of the pixel \<open>(10, 10)\<close> holds exactly
  \<open>k\<close> cells of the pixel's class, for \<open>41 \<le> k \<le> 81\<close>.
\<close>

definition edge_raster :: "nat \<Rightarrow> array2d" where
  "edge_raster k =
     \<lparr>nrows = 20, ncols = 20,
      px = (\<lambda>y x. if 6 \<le> y \<and> y < 15 \<and> 6 \<le> x \<and> x < 15 \<and> (y - 6) * 9 + (x - 6) < k then 1 else 2)\<rparr>"

section \<open>Label mapping\<close>

text \<open>\<open>str(n)\<close> for an integer, as the f-string \<open>f'Class_{original_class}'\<close> prints it.\<close>

fun str_nat :: "nat \<Rightarrow> string" where
  "str_nat n = (if n < 10 then [char_of (48 + n)] else str_nat (n div 10) @ [char_of (48 + n mod 10)])"

declare str_nat.simps [simp del]

definition str_int :: "int \<Rightarrow> string" where
  "str_int i = (if i < 0 then CHR ''-'' # str_nat (nat (- i)) else str_nat (nat i))"

record class_definition =
  name :: string
  color :: "nat \<times> nat \<times> nat"
  original_id :: int

definition CLASS_DEFINITIONS :: "(int \<times> string \<times> (nat \<times> nat \<times> nat)) list" where
  "CLASS_DEFINITIONS =
     [(0, ''Unknown'', (0, 0, 0)),
      (1, ''Temperate needleleaf forest'', (0, 61, 0)),
      (2, ''Sub-polar taiga forest'', (148, 156, 112)),
      (5, ''Temperate broadleaf forest'', (20, 140, 61)),
      (6, ''Mixed forest'', (91, 117, 43)),
      (8, ''Temperate shrubland'', (179, 138, 51)),
      (10, ''Temperate grassland'', (225, 207, 138)),
      (11, ''Polar shrubland-lichen'', (156, 117, 84)),
      (12, ''Polar grassland-lichen'', (186, 212, 143)),
      (13, ''Polar barren-lichen'', (64, 138, 112)),
      (14, ''Wetland'', (107, 163, 138)),
      (15, ''Cropland'', (230, 174, 102)),
      (16, ''Barren lands'', (168, 171, 174)),
      (17, ''Urban'', (220, 33, 38)),
      (18, ''Water'', (76, 112, 163)),
      (19, ''Snow/ice'', (255, 250, 255))]"

text \<open>The three dictionaries the function fills.\<close>

record label_mapping =
  original_to_new :: "int \<rightharpoonup> int"
  new_to_original :: "int \<rightharpoonup> int"
  new_class_definitions :: "int \<rightharpoonup> class_definition"

text \<open>The body of the loop over \<open>enumerate(alberta_classes_sorted)\<close>.\<close>

definition label_step :: "label_mapping \<Rightarrow> nat \<times> int \<Rightarrow> label_mapping" where
  "label_step m p =
     (let new_label = int (fst p);
          original_class = snd p
      in \<lparr>original_to_new = (original_to_new m)(original_class \<mapsto> new_label),
          new_to_original = (new_to_original m)(new_label \<mapsto> original_class),
          new_class_definitions = (new_class_definitions m)(new_label \<mapsto>
            (case map_of CLASS_DEFINITIONS original_class of
               Some d \<Rightarrow> \<lparr>name = fst d, color = snd d, original_id = original_class\<rparr>
             | None \<Rightarrow> \<lparr>name = ''Class_'' @ str_int original_class, color = (0, 0, 0),
                         original_id = original_class\<rparr>))\<rparr>)"

definition create_alberta_label_mapping :: "int list \<Rightarrow> label_mapping \<times> int list" where
  "create_alberta_label_mapping alberta_classes =
     (let alberta_classes_sorted = sort alberta_classes;
          m0 = \<lparr>original_to_new = [0 \<mapsto> - 99],
                new_to_original = Map.empty,
                new_class_definitions =
                  [- 99 \<mapsto> \<lparr>name = ''Background/NoData'', color = (0, 0, 0), original_id = 0\<rparr>]\<rparr>
      in (foldl label_step m0 (enumerate 0 alberta_classes_sorted), alberta_classes_sorted))"

section \<open>Remapping the ground truth\<close>






section \<open>Splitting the selected patches\<close>

text \<open>
  The slice \<open>xs[lo:hi]\<close> of a Python list: a negative bound counts from the end, and both
  bounds are clipped to the list.
\<close>

definition slice_bound :: "nat \<Rightarrow> int \<Rightarrow> nat" where
  "slice_bound len i = (if i < 0 then nat (max 0 (int len + i)) else min len (nat i))"

definition py_slice :: "'a list \<Rightarrow> int \<Rightarrow> int \<Rightarrow> 'a list" where
  "py_slice xs lo hi = take (slice_bound (length xs) hi - slice_bound (length xs) lo)
                         (drop (slice_bound (length xs) lo) xs)"

text \<open>
  The sizes of the three splits, lines \<open>n_train = int(n_patches * train_ratio)\<close> to the second
  corrective rule. They are Python ints and may be negative.
\<close>

definition split_sizes :: "nat \<Rightarrow> dbl \<Rightarrow> dbl \<Rightarrow> int \<times> int \<times> int" where
  "split_sizes n_patches train_ratio val_ratio =
     (let n_train = int (py_int (int_times_double n_patches train_ratio));
          n_val = int (py_int (int_times_double n_patches val_ratio));
          n_test = int n_patches - n_train - n_val;
          (n_train, n_test) = (if n_test = 0 \<and> n_patches \<ge> 3 then (n_train - 1, 1) else (n_train, n_test));
          (n_train, n_val) = (if n_val = 0 \<and> n_patches \<ge> 2 then (n_train - 1, 1) else (n_train, n_val))
      in (n_train, n_val, n_test))"

text \<open>
  The split of one class. \<open>selected_patches\<close> is the list after \<open>random.shuffle\<close>: any order
  of the selected patches, each an abundance, a row and a column. The result is the train, the
  val and the test list of the class.
\<close>

definition split_selected ::
  "(int \<times> nat \<times> nat) list \<Rightarrow> dbl \<Rightarrow> dbl \<Rightarrow> (nat \<times> nat) list \<times> (nat \<times> nat) list \<times> (nat \<times> nat) list" where
  "split_selected selected_patches train_ratio val_ratio =
     (let n_patches = length selected_patches;
          (n_train, n_val, n_test) = split_sizes n_patches train_ratio val_ratio;
          train_patches = map snd (py_slice selected_patches 0 n_train);
          val_patches = map snd (py_slice selected_patches n_train (n_train + n_val));
          test_patches = map snd (py_slice selected_patches (n_train + n_val) (int n_patches))
      in (train_patches, val_patches, test_patches))"

text \<open>
  The sizes as the specification words them, with exact arithmetic: \<open>floor(n * 0.7)\<close> is
  \<open>7 n div 10\<close> and \<open>floor(n * 0.15)\<close> is \<open>15 n div 100\<close>. \<open>spec_corrective\<close> is the rest
  of the rule, from \<open>n_test = n - n_train - n_val\<close> to the second corrective move.
\<close>

definition spec_corrective :: "nat \<Rightarrow> int \<Rightarrow> int \<Rightarrow> int \<times> int \<times> int" where
  "spec_corrective n n_train n_val =
     (let n_test = int n - n_train - n_val;
          (n_train, n_test) = (if n_test = 0 \<and> n \<ge> 3 then (n_train - 1, 1) else (n_train, n_test));
          (n_train, n_val) = (if n_val = 0 \<and> n \<ge> 2 then (n_train - 1, 1) else (n_train, n_val))
      in (n_train, n_val, n_test))"

definition spec_split_sizes :: "nat \<Rightarrow> int \<times> int \<times> int" where
  "spec_split_sizes n = spec_corrective n (int (7 * n div 10)) (int (15 * n div 100))"

section \<open>Abundance maps\<close>

text \<open>
  The body of the double loop of \<open>calculate_abundance_batch_numba\<close> for the grid cell
  \<open>(i, j)\<close>. \<open>max(0, y_start_orig - batch_start_y)\<close> is the subtraction of natural numbers.
  Where Python's \<open>y_end_orig - batch_start_y\<close> is negative the natural number is 0; in both
  cases the test \<open>y_start_batch < y_end_batch\<close> fails and the cell stays 0.
\<close>

definition abundance_cell ::
  "array2d \<Rightarrow> int \<Rightarrow> nat \<Rightarrow> nat \<Rightarrow> nat \<Rightarrow> nat \<Rightarrow> nat \<Rightarrow> nat \<Rightarrow> int" where
  "abundance_cell lc_batch class_id window_size stride batch_start_y batch_start_x i j =
     (let lc_rows = nrows lc_batch;
          lc_cols = ncols lc_batch;
          y_start_orig = i * stride;
          x_start_orig = j * stride;
          y_end_orig = min (y_start_orig + window_size) (batch_start_y + lc_rows);
          x_end_orig = min (x_start_orig + window_size) (batch_start_x + lc_cols);
          y_start_batch = max 0 (y_start_orig - batch_start_y);
          x_start_batch = max 0 (x_start_orig - batch_start_x);
          y_end_batch = min lc_rows (y_end_orig - batch_start_y);
          x_end_batch = min lc_cols (x_end_orig - batch_start_x)
      in if y_start_batch < y_end_batch \<and> x_start_batch < x_end_batch
         then int (count_cells (\<lambda>y x. px lc_batch y x = class_id)
                     y_start_batch y_end_batch x_start_batch x_end_batch)
         else 0)"

text \<open>
  The function returns the partial counts of a batch with the grid position of their first
  cell. A stride of 0 raises at the first division, and a negative dimension raises in
  \<open>np.zeros\<close>.
\<close>

definition calculate_abundance_batch_numba ::
  "array2d \<Rightarrow> int \<Rightarrow> nat \<Rightarrow> nat \<Rightarrow> nat \<Rightarrow> nat \<Rightarrow> nat \<Rightarrow> nat \<Rightarrow> py_error + (array2d \<times> nat \<times> nat)" where
  "calculate_abundance_batch_numba lc_batch class_id window_size stride
       batch_start_y batch_start_x out_rows out_cols =
     (if stride = 0 then Inl ZeroDivisionError
      else
        let lc_rows = nrows lc_batch;
            lc_cols = ncols lc_batch;
            start_i = max 0 (batch_start_y div stride);
            end_i = min out_rows ((batch_start_y + lc_rows) div stride + 1);
            start_j = max 0 (batch_start_x div stride);
            end_j = min out_cols ((batch_start_x + lc_cols) div stride + 1)
        in if end_i < start_i \<or> end_j < start_j then Inl ValueError
           else Inr (\<lparr>nrows = end_i - start_i, ncols = end_j - start_j,
                       px = (\<lambda>a b. if a < end_i - start_i \<and> b < end_j - start_j
                                   then abundance_cell lc_batch class_id window_size stride
                                          batch_start_y batch_start_x (start_i + a) (start_j + b)
                                   else 0)\<rparr>,
                     start_i, start_j))"

text \<open>
  \<open>full_abundance[start_i:end_i, start_j:end_j] += batch_abundance\<close>, under its guard.
\<close>

definition add_batch_abundance :: "array2d \<Rightarrow> array2d \<Rightarrow> nat \<Rightarrow> nat \<Rightarrow> nat \<Rightarrow> nat \<Rightarrow> array2d" where
  "add_batch_abundance full_abundance batch_abundance start_i start_j out_rows out_cols =
     (let end_i = start_i + nrows batch_abundance;
          end_j = start_j + ncols batch_abundance
      in if end_i \<le> out_rows \<and> end_j \<le> out_cols
         then full_abundance\<lparr>px := (\<lambda>i j. if start_i \<le> i \<and> i < end_i \<and> start_j \<le> j \<and> j < end_j
                                           then px full_abundance i j + px batch_abundance (i - start_i) (j - start_j)
                                           else px full_abundance i j)\<rparr>
         else full_abundance)"

text \<open>
  The body of the batch loop for one class. The batch lies inside the raster, so the read
  returns an array; an exception of the count ends the loop.
\<close>

definition abundance_batch ::
  "array2d \<Rightarrow> int \<Rightarrow> nat \<Rightarrow> nat \<Rightarrow> nat \<Rightarrow> nat \<Rightarrow> nat \<Rightarrow> py_error + array2d \<Rightarrow> nat \<Rightarrow> nat
     \<Rightarrow> py_error + array2d" where
  "abundance_batch src_ds class_id window_size stride batch_size out_rows out_cols acc batch_y batch_x =
     (case acc of
        Inl e \<Rightarrow> Inl e
      | Inr full_abundance \<Rightarrow>
          let rows = nrows src_ds;
              cols = ncols src_ds;
              y_start = batch_y * batch_size;
              y_end = min ((batch_y + 1) * batch_size) rows;
              x_start = batch_x * batch_size;
              x_end = min ((batch_x + 1) * batch_size) cols;
              batch_array = ReadAsArray src_ds x_start y_start (x_end - x_start) (y_end - y_start)
          in case calculate_abundance_batch_numba batch_array class_id window_size stride
                    y_start x_start out_rows out_cols of
               Inl e \<Rightarrow> Inl e
             | Inr (batch_abundance, start_i, start_j) \<Rightarrow>
                 Inr (add_batch_abundance full_abundance batch_abundance start_i start_j out_rows out_cols))"

text \<open>The abundance grid of one class: the array \<open>full_abundance\<close> that is written.\<close>

definition class_abundance ::
  "array2d \<Rightarrow> int \<Rightarrow> nat \<Rightarrow> nat \<Rightarrow> nat \<Rightarrow> nat \<Rightarrow> nat \<Rightarrow> py_error + array2d" where
  "class_abundance src_ds class_id window_size stride batch_size out_rows out_cols =
     (let num_batches_y = ceil_div (nrows src_ds) batch_size;
          num_batches_x = ceil_div (ncols src_ds) batch_size;
          full_abundance = \<lparr>nrows = out_rows, ncols = out_cols, px = (\<lambda>i j. 0)\<rparr>
      in foldl (\<lambda>acc batch_y.
                  foldl (\<lambda>acc batch_x.
                           abundance_batch src_ds class_id window_size stride batch_size
                             out_rows out_cols acc batch_y batch_x)
                    acc [0..<num_batches_x])
           (Inr full_abundance) [0..<num_batches_y])"

text \<open>The classes of a raster: its values other than background, ascending.\<close>

definition scan_filtered_classes :: "array2d \<Rightarrow> int list" where
  "scan_filtered_classes src_ds =
     sort (remdups (filter (\<lambda>v. v \<noteq> background)
       (concat (map (\<lambda>y. map (\<lambda>x. px src_ds y x) [0..<ncols src_ds]) [0..<nrows src_ds]))))"

text \<open>
  The whole function: \<open>exists\<close> tells which classes already have an abundance file and are
  skipped. The result is the list of the files written, each a class and its grid, with the
  values the function returns. Window size and overlap are natural numbers with the overlap
  below the window size in every call of the pipeline; an overlap equal to the window size
  raises at the division by the stride, a larger one is outside the model.
\<close>

definition create_abundance_maps_batched ::
  "array2d \<Rightarrow> (int \<Rightarrow> bool) \<Rightarrow> nat \<Rightarrow> nat \<Rightarrow> nat
     \<Rightarrow> py_error + ((int \<times> array2d) list \<times> int list \<times> nat \<times> nat \<times> nat)" where
  "create_abundance_maps_batched src_ds exists window_size overlap batch_size =
     (let rows = nrows src_ds;
          cols = ncols src_ds;
          stride = window_size - overlap
      in if stride = 0 \<or> batch_size = 0 then Inl ZeroDivisionError
         else
           let max_valid_row = max 0 (rows - window_size);
               max_valid_col = max 0 (cols - window_size);
               out_rows = max 1 (max_valid_row div stride + 1);
               out_cols = max 1 (max_valid_col div stride + 1);
               classes = scan_filtered_classes src_ds;
               written = foldl (\<lambda>acc class_id.
                           case acc of
                             Inl e \<Rightarrow> Inl e
                           | Inr files \<Rightarrow>
                               if exists class_id then Inr files
                               else case class_abundance src_ds class_id window_size stride
                                           batch_size out_rows out_cols of
                                      Inl e \<Rightarrow> Inl e
                                    | Inr full_abundance \<Rightarrow> Inr (files @ [(class_id, full_abundance)]))
                         (Inr []) classes
           in case written of
                Inl e \<Rightarrow> Inl e
              | Inr files \<Rightarrow> Inr (files, classes, stride, rows, cols))"

text \<open>A raster of 2060 rows and 224 columns that holds class 0 everywhere.\<close>

definition strip_raster :: array2d where
  "strip_raster = \<lparr>nrows = 2060, ncols = 224, px = (\<lambda>y x. 0)\<rparr>"

section \<open>Band stacking\<close>

text \<open>
  \<open>stack_landsat_bands\<close> and \<open>stack_sentinel2_bands\<close> are the same code with different
  constants: the band list, the sensor tag of the file names and the expected number of bands.
  The file system is the set of the paths that exist. What the functions print is a list of
  lines, one constructor for each \<open>print\<close> of the part modelled. The module constants
  \<open>input_dir\<close>, \<open>output_dir\<close> and \<open>output_file\<close> are arguments.
\<close>

datatype printed =
    Banner string nat
  | Found_band string string
  | Missing_band string string
  | Error_missing nat "string list"
  | Please_clip
  | Error_expected nat nat
  | All_found nat
  | Stacking string

definition landsat_bands :: "string list" where
  "landsat_bands = [''SR_B2'', ''SR_B3'', ''SR_B4'', ''SR_B5'', ''SR_B6'', ''SR_B7'']"

definition sentinel_bands :: "string list" where
  "sentinel_bands = [''B2'', ''B3'', ''B4'', ''B8'', ''B5'', ''B6'', ''B7'', ''B8A'', ''B11'', ''B12'']"

text \<open>\<open>os.path.join\<close> on the platform of the paths of the scripts, and \<open>os.path.basename\<close>'s argument.\<close>

definition os_path_join :: "string \<Rightarrow> string \<Rightarrow> string" where
  "os_path_join dir file = dir @ [CHR 0x5C] @ file"

definition clipped_name :: "string \<Rightarrow> string \<Rightarrow> string" where
  "clipped_name tag band = ''Alberta_2020_'' @ tag @ ''_'' @ band @ ''_NAD83_StatsCan_CLIPPED.tif''"

text \<open>The loop that collects \<open>band_files\<close> and \<open>missing_bands\<close>, with its prints.\<close>

fun collect_bands ::
  "string set \<Rightarrow> string \<Rightarrow> string \<Rightarrow> string list \<Rightarrow> string list \<times> string list \<times> printed list" where
  "collect_bands fs input_dir tag [] = ([], [], [])"
| "collect_bands fs input_dir tag (band # bands) =
     (let input_file = os_path_join input_dir (clipped_name tag band);
          (band_files, missing_bands, out) = collect_bands fs input_dir tag bands
      in if input_file \<in> fs
         then (input_file # band_files, missing_bands, Found_band band (clipped_name tag band) # out)
         else (band_files, band # missing_bands, Missing_band band (clipped_name tag band) # out))"

text \<open>
  The function up to the \<open>try\<close> block. The block itself (building the VRT, translating it,
  removing it, reading the result back) is GDAL's work and is the argument \<open>do_stack\<close>: from
  the file system and the band files it gives the value returned, the new file system and
  the lines printed. The result of the function has the same three parts.
\<close>

definition stack_bands ::
  "(string set \<Rightarrow> string list \<Rightarrow> bool \<times> string set \<times> printed list)
     \<Rightarrow> string \<Rightarrow> string list \<Rightarrow> nat \<Rightarrow> string \<Rightarrow> string \<Rightarrow> string set
     \<Rightarrow> bool \<times> string set \<times> printed list" where
  "stack_bands do_stack tag bands expected sensor input_dir fs =
     (let (band_files, missing_bands, out) = collect_bands fs input_dir tag bands;
          out = Banner sensor (length bands) # out
      in if missing_bands \<noteq> []
         then (False, fs, out @ [Error_missing (length missing_bands) missing_bands, Please_clip])
         else if length band_files \<noteq> expected
         then (False, fs, out @ [Error_expected expected (length band_files)])
         else let (ok, fs', out') = do_stack fs band_files
              in (ok, fs', out @ [All_found (length band_files)] @ out'))"

definition stack_landsat_bands ::
  "(string set \<Rightarrow> string list \<Rightarrow> bool \<times> string set \<times> printed list)
     \<Rightarrow> string \<Rightarrow> string set \<Rightarrow> bool \<times> string set \<times> printed list" where
  "stack_landsat_bands do_stack input_dir fs =
     stack_bands do_stack ''L8'' landsat_bands 6 ''LANDSAT-8'' input_dir fs"

definition stack_sentinel2_bands ::
  "(string set \<Rightarrow> string list \<Rightarrow> bool \<times> string set \<times> printed list)
     \<Rightarrow> string \<Rightarrow> string set \<Rightarrow> bool \<times> string set \<times> printed list" where
  "stack_sentinel2_bands do_stack input_dir fs =
     stack_bands do_stack ''S2'' sentinel_bands 10 ''SENTINEL-2'' input_dir fs"

text \<open>The bands whose clipped file does not exist, in band order.\<close>

definition missing_in :: "string set \<Rightarrow> string \<Rightarrow> string \<Rightarrow> string list \<Rightarrow> string list" where
  "missing_in fs input_dir tag bands =
     filter (\<lambda>band. os_path_join input_dir (clipped_name tag band) \<notin> fs) bands"

text \<open>Two file systems and a stacking block for concrete instances.\<close>

definition fs_without_B5 :: "string set" where
  "fs_without_B5 =
     set (map (\<lambda>band. os_path_join ''in'' (clipped_name ''L8'' band))
            [''SR_B2'', ''SR_B3'', ''SR_B4'', ''SR_B6'', ''SR_B7''])"

definition fs_complete :: "string set" where
  "fs_complete =
     set (map (\<lambda>band. os_path_join ''in'' (clipped_name ''L8'' band)) landsat_bands) \<union>
     set (map (\<lambda>band. os_path_join ''in'' (clipped_name ''S2'' band)) sentinel_bands)"

definition example_do_stack :: "string set \<Rightarrow> string list \<Rightarrow> bool \<times> string set \<times> printed list" where
  "example_do_stack fs band_files = (True, insert ''stacked.tif'' fs, [Stacking ''stacked.tif''])"

section \<open>Extracting the patches\<close>

text \<open>
  A geotransform is six doubles. The code adds and multiplies them; the model takes the
  arithmetic of the doubles as an argument \<open>ar\<close>: the sum of two doubles, the product of an
  integer and a double, and the test \<open>abs(a - b) < 0.001\<close> of the verification. The theorems
  hold for every such arithmetic, the one of IEEE doubles among them.
\<close>

record 'f geotransform =
  g0 :: 'f
  g1 :: 'f
  g2 :: 'f
  g3 :: 'f
  g4 :: 'f
  g5 :: 'f

record 'f arith =
  add :: "'f \<Rightarrow> 'f \<Rightarrow> 'f"
  mul_int :: "int \<Rightarrow> 'f \<Rightarrow> 'f"
  close_to :: "'f \<Rightarrow> 'f \<Rightarrow> bool"

text \<open>
  A stacked raster as the extraction sees it: its size, its bands, its geotransform, and for
  which offsets the reads of a window succeed with the full shape.
\<close>

record 'f dataset =
  ds_rows :: nat
  ds_cols :: nat
  ds_bands :: nat
  ds_gt :: "'f geotransform"
  ds_readable :: "nat \<Rightarrow> nat \<Rightarrow> bool"

text \<open>A patch file written: its folder, its name (class and index), where it was read, its geotransform.\<close>

record 'f written_patch =
  folder :: string
  file_class :: int
  file_index :: nat
  x_offset :: nat
  y_offset :: nat
  patch_gt :: "'f geotransform"

text \<open>
  \<open>verify_sensor_dimensions\<close>: a sensor whose raster cannot be opened (\<open>None\<close>) or whose
  size differs from the reference is left out; a geotransform that differs gives a warning
  and the sensor is registered all the same. The result is \<open>sensor_info\<close> and the names
  warned about.
\<close>

definition verify_sensor_dimensions ::
  "'f arith \<Rightarrow> (string \<times> 'f dataset option) list \<Rightarrow> 'f dataset
     \<Rightarrow> (string \<times> 'f dataset) list \<times> string list" where
  "verify_sensor_dimensions ar sensor_paths ref =
     foldl (\<lambda>(sensor_info, warnings) (sensor_name, opened).
              case opened of
                None \<Rightarrow> (sensor_info, warnings)
              | Some ds \<Rightarrow>
                  if ds_rows ds \<noteq> ds_rows ref \<or> ds_cols ds \<noteq> ds_cols ref
                  then (sensor_info, warnings)
                  else
                    let gt = ds_gt ds;
                        ref_gt = ds_gt ref;
                        gt_match = (close_to ar (g0 gt) (g0 ref_gt) \<and> close_to ar (g1 gt) (g1 ref_gt) \<and>
                                    close_to ar (g2 gt) (g2 ref_gt) \<and> close_to ar (g3 gt) (g3 ref_gt) \<and>
                                    close_to ar (g4 gt) (g4 ref_gt) \<and> close_to ar (g5 gt) (g5 ref_gt))
                    in (sensor_info @ [(sensor_name, ds)],
                        if gt_match then warnings else warnings @ [sensor_name]))
       ([], []) sensor_paths"

text \<open>The patch geotransform of both extraction functions.\<close>

definition patch_geotransform :: "'f arith \<Rightarrow> 'f geotransform \<Rightarrow> nat \<Rightarrow> nat \<Rightarrow> 'f geotransform" where
  "patch_geotransform ar gt x_off y_off =
     \<lparr>g0 = add ar (g0 gt) (mul_int ar (int x_off) (g1 gt)),
      g1 = g1 gt, g2 = g2 gt,
      g3 = add ar (g3 gt) (mul_int ar (int y_off) (g5 gt)),
      g4 = g4 gt, g5 = g5 gt\<rparr>"

text \<open>
  The body of the loop over \<open>enumerate(coords)\<close> in \<open>extract_patches_for_sensor\<close>: the
  patch written, or nothing when a read fails and the exception is caught.
\<close>

definition sensor_patch ::
  "'f arith \<Rightarrow> string \<Rightarrow> 'f dataset \<Rightarrow> nat \<Rightarrow> int \<Rightarrow> nat \<times> nat \<times> nat \<Rightarrow> 'f written_patch list" where
  "sensor_patch ar sensor_name sensor_ds stride class_id item =
     (let patch_idx = fst item;
          i = fst (snd item);
          j = snd (snd item);
          x_off = j * stride;
          y_off = i * stride
      in if ds_readable sensor_ds x_off y_off
         then [\<lparr>folder = sensor_name, file_class = class_id, file_index = patch_idx,
                 x_offset = x_off, y_offset = y_off,
                 patch_gt = patch_geotransform ar (ds_gt sensor_ds) x_off y_off\<rparr>]
         else [])"

text \<open>
  \<open>patch_locations\<close> is the dictionary from a class to its list of \<open>(i, j)\<close>, as the list of
  its items. The land-cover rasters are \<open>None\<close> when they cannot be opened, which raises.
\<close>

definition extract_patches_for_sensor ::
  "'f arith \<Rightarrow> string \<Rightarrow> 'f dataset \<Rightarrow> 'f dataset option \<Rightarrow> 'f dataset option
     \<Rightarrow> (int \<times> (nat \<times> nat) list) list \<Rightarrow> nat \<Rightarrow> py_error + 'f written_patch list" where
  "extract_patches_for_sensor ar sensor_name sensor_ds lc_filtered_ds lc_unfiltered_ds patch_locations stride =
     (if lc_filtered_ds = None \<or> lc_unfiltered_ds = None then Inl ValueError
      else Inr (concat (map (\<lambda>(class_id, coords).
                   concat (map (sensor_patch ar sensor_name sensor_ds stride class_id) (enumerate 0 coords)))
                 patch_locations)))"

text \<open>
  The body of the loop of \<open>extract_label_patches\<close>: the filtered and the unfiltered label
  patch, both with the geotransform computed from the filtered raster's.
\<close>

definition label_patch ::
  "'f arith \<Rightarrow> 'f dataset \<Rightarrow> 'f dataset \<Rightarrow> nat \<Rightarrow> int \<Rightarrow> nat \<times> nat \<times> nat \<Rightarrow> 'f written_patch list" where
  "label_patch ar lc_filtered lc_unfiltered stride class_id item =
     (let patch_idx = fst item;
          i = fst (snd item);
          j = snd (snd item);
          x_off = j * stride;
          y_off = i * stride
      in if ds_readable lc_filtered x_off y_off \<and> ds_readable lc_unfiltered x_off y_off
         then [\<lparr>folder = ''filtered'', file_class = class_id, file_index = patch_idx,
                 x_offset = x_off, y_offset = y_off,
                 patch_gt = patch_geotransform ar (ds_gt lc_filtered) x_off y_off\<rparr>,
               \<lparr>folder = ''unfiltered'', file_class = class_id, file_index = patch_idx,
                 x_offset = x_off, y_offset = y_off,
                 patch_gt = patch_geotransform ar (ds_gt lc_filtered) x_off y_off\<rparr>]
         else [])"

definition extract_label_patches ::
  "'f arith \<Rightarrow> 'f dataset option \<Rightarrow> 'f dataset option
     \<Rightarrow> (int \<times> (nat \<times> nat) list) list \<Rightarrow> nat \<Rightarrow> py_error + 'f written_patch list" where
  "extract_label_patches ar lc_filtered_ds lc_unfiltered_ds patch_locations stride =
     (case (lc_filtered_ds, lc_unfiltered_ds) of
        (Some lc_filtered, Some lc_unfiltered) \<Rightarrow>
          Inr (concat (map (\<lambda>(class_id, coords).
                 concat (map (label_patch ar lc_filtered lc_unfiltered stride class_id) (enumerate 0 coords)))
               patch_locations))
      | _ \<Rightarrow> Inl ValueError)"

text \<open>The origin of a geotransform, and the patch a location gives for a geotransform.\<close>

definition origin :: "'f geotransform \<Rightarrow> 'f \<times> 'f" where
  "origin gt = (g0 gt, g3 gt)"

text \<open>Exact rational arithmetic, for values that doubles hold exactly.\<close>

definition exact_arith :: "rat arith" where
  "exact_arith = \<lparr>add = (\<lambda>a b. a + b), mul_int = (\<lambda>n a. of_int n * a),
                  close_to = (\<lambda>a b. \<bar>a - b\<bar> < 1 / 1000)\<rparr>"

text \<open>
  A ground-truth raster and a sensor raster of the same size with 30 m pixels; the sensor's
  origin lies 3000 m east of the ground truth's.
\<close>

definition gt_truth :: "rat geotransform" where
  "gt_truth = \<lparr>g0 = 0, g1 = 30, g2 = 0, g3 = 0, g4 = 0, g5 = - 30\<rparr>"

definition gt_shifted :: "rat geotransform" where
  "gt_shifted = \<lparr>g0 = 3000, g1 = 30, g2 = 0, g3 = 0, g4 = 0, g5 = - 30\<rparr>"

definition truth_ds :: "rat dataset" where
  "truth_ds = \<lparr>ds_rows = 1000, ds_cols = 1000, ds_bands = 1, ds_gt = gt_truth,
                ds_readable = (\<lambda>x y. x + 224 \<le> 1000 \<and> y + 224 \<le> 1000)\<rparr>"

definition shifted_sensor :: "rat dataset" where
  "shifted_sensor = \<lparr>ds_rows = 1000, ds_cols = 1000, ds_bands = 6, ds_gt = gt_shifted,
                      ds_readable = (\<lambda>x y. x + 224 \<le> 1000 \<and> y + 224 \<le> 1000)\<rparr>"

definition aligned_sensor :: "rat dataset" where
  "aligned_sensor = \<lparr>ds_rows = 1000, ds_cols = 1000, ds_bands = 10, ds_gt = gt_truth,
                      ds_readable = (\<lambda>x y. x + 224 \<le> 1000 \<and> y + 224 \<le> 1000)\<rparr>"

section \<open>Proofs: counting cells\<close>

lemma min_required_0_8: "min_required double_0_8 = 65"
  by (simp add: min_required_def math_ceil_def int_times_double_def round_to_double_def
      double_0_8_def kernel_size_def bit_length.simps Let_def)

lemma map_shift_upt: "map (\<lambda>y. f (k + y)) [a..<b] = map f [k + a..<k + (b::nat)]"
proof -
  have "[k + a..<k + b] = map (\<lambda>y. k + y) [a..<b]"
    by (induction b) (auto)
  then show ?thesis by (simp add: comp_def)
qed

lemma count_cells_shift:
  "count_cells (\<lambda>y x. P (yoff + y) (xoff + x)) a b c d = count_cells P (yoff + a) (yoff + b) (xoff + c) (xoff + d)"
proof -
  have inner: "sum_list (map (\<lambda>x. if P y x then 1 else 0) [xoff + c..<xoff + d])
      = sum_list (map (\<lambda>x. if P y (xoff + x) then 1 else (0::nat)) [c..<d])" for y
    using map_shift_upt[of "\<lambda>x. if P y x then 1 else (0::nat)" xoff c d] by simp
  have outer: "sum_list (map G [yoff + a..<yoff + b]) = sum_list (map (\<lambda>y. G (yoff + y)) [a..<b])"
    for G :: "nat \<Rightarrow> nat"
    by (simp only: map_shift_upt)
  show ?thesis
    unfolding count_cells_def by (simp only: inner outer)
qed

lemma sum_list_indicator_le: "sum_list (map (\<lambda>x. if Q x then 1 else (0::nat)) xs) \<le> length xs"
  by (induction xs) auto

lemma sum_list_rows_le:
  assumes "\<And>y. y \<in> set ys \<Longrightarrow> g y \<le> (c::nat)"
  shows "sum_list (map g ys) \<le> length ys * c"
  using assms
proof (induction ys)
  case Nil
  show ?case by simp
next
  case (Cons y ys)
  have "g y \<le> c" using Cons.prems by simp
  moreover have "sum_list (map g ys) \<le> length ys * c" using Cons by simp
  ultimately show ?case by simp
qed

lemma count_cells_le: "count_cells P y0 y1 x0 x1 \<le> (y1 - y0) * (x1 - x0)"
proof -
  have "sum_list (map (\<lambda>x. if P y x then 1 else (0::nat)) [x0..<x1]) \<le> x1 - x0" for y
    using sum_list_indicator_le[of "P y" "[x0..<x1]"] by simp
  then have "sum_list (map (\<lambda>y. sum_list (map (\<lambda>x. if P y x then 1 else 0) [x0..<x1])) [y0..<y1])
      \<le> length [y0..<y1] * (x1 - x0)"
    by (intro sum_list_rows_le)
  then show ?thesis by (simp add: count_cells_def)
qed

lemma sum_list_indicator_all:
  "(\<And>x. x \<in> set xs \<Longrightarrow> Q x) \<Longrightarrow> sum_list (map (\<lambda>x. if Q x then 1 else (0::nat)) xs) = length xs"
  by (induction xs) auto

lemma sum_list_const_rows:
  "(\<And>y. y \<in> set ys \<Longrightarrow> g y = (c::nat)) \<Longrightarrow> sum_list (map g ys) = length ys * c"
  by (induction ys) auto

lemma count_cells_all:
  assumes "\<And>y x. y0 \<le> y \<Longrightarrow> y < y1 \<Longrightarrow> x0 \<le> x \<Longrightarrow> x < x1 \<Longrightarrow> P y x"
  shows "count_cells P y0 y1 x0 x1 = (y1 - y0) * (x1 - x0)"
proof -
  have "sum_list (map (\<lambda>x. if P y x then 1 else (0::nat)) [x0..<x1]) = x1 - x0"
    if "y \<in> set [y0..<y1]" for y
    using sum_list_indicator_all[of "[x0..<x1]" "P y"] assms that by simp
  then have "sum_list (map (\<lambda>y. sum_list (map (\<lambda>x. if P y x then 1 else 0) [x0..<x1])) [y0..<y1])
      = length [y0..<y1] * (x1 - x0)"
    by (intro sum_list_const_rows)
  then show ?thesis by (simp add: count_cells_def)
qed

text \<open>No two neighbours in a row both satisfy the test: at most every other cell counts.\<close>

lemma sum_list_alternating:
  assumes "\<And>x. Q x \<Longrightarrow> \<not> Q (Suc x)"
  shows "sum_list (map (\<lambda>x. if Q x then 1 else (0::nat)) [x0..<x0 + n]) \<le> (n + 1) div 2
       \<and> (\<not> Q (x0 + n - 1) \<longrightarrow> sum_list (map (\<lambda>x. if Q x then 1 else (0::nat)) [x0..<x0 + n]) \<le> n div 2)"
proof (induction n)
  case 0
  show ?case by simp
next
  case (Suc n)
  show ?case
  proof (cases "Q (x0 + n)")
    case True
    show ?thesis
    proof (cases n)
      case 0
      then show ?thesis using True by simp
    next
      case (Suc m)
      then have "\<not> Q (x0 + n - 1)" using assms[of "x0 + m"] True by auto
      with Suc.IH True show ?thesis by simp
    qed
  next
    case False
    have "Suc n div 2 \<le> Suc (n div 2)" by arith
    with Suc.IH False show ?thesis by (auto intro: le_trans)
  qed
qed

lemma count_cells_alternating:
  assumes "\<And>y x. P y x \<Longrightarrow> \<not> P y (Suc x)"
  shows "count_cells P y0 y1 x0 x1 \<le> (y1 - y0) * ((x1 - x0 + 1) div 2)"
proof -
  have row: "sum_list (map (\<lambda>x. if P y x then 1 else (0::nat)) [x0..<x1]) \<le> (x1 - x0 + 1) div 2" for y
  proof (cases "x0 \<le> x1")
    case True
    then have "x1 = x0 + (x1 - x0)" by simp
    then show ?thesis
      using sum_list_alternating[of "P y" x0 "x1 - x0"] assms by metis
  next
    case False
    then show ?thesis by simp
  qed
  have "sum_list (map (\<lambda>y. sum_list (map (\<lambda>x. if P y x then 1 else 0) [x0..<x1])) [y0..<y1])
      \<le> length [y0..<y1] * ((x1 - x0 + 1) div 2)"
    by (intro sum_list_rows_le row)
  then show ?thesis by (simp add: count_cells_def)
qed

section \<open>Proofs: the strict majority filter\<close>

subsection \<open>The kernel\<close>

lemma filter_pixel_background: "px a i j = background \<Longrightarrow> filter_pixel a h i j = background"
  by (simp add: filter_pixel_def)

lemma filter_pixel_cases: "filter_pixel a h i j = px a i j \<or> filter_pixel a h i j = background"
  by (simp add: filter_pixel_def Let_def)

lemma filter_pixel_eq:
  "filter_pixel a h i j =
     (if px a i j = background then background
      else if min_required h \<le> count_cells (\<lambda>y x. px a y x = px a i j \<and> px a y x \<noteq> background)
                (i - 4) (min (nrows a) (i + 5)) (j - 4) (min (ncols a) (j + 5))
      then px a i j else background)"
  by (simp add: filter_pixel_def Let_def half_kernel_def kernel_size_def add.commute)

lemma filter_pixel_small_window:
  assumes "(min (nrows a) (i + 5) - (i - 4)) * (min (ncols a) (j + 5) - (j - 4)) < min_required h"
  shows "filter_pixel a h i j = background"
proof -
  let ?P = "\<lambda>y x. px a y x = px a i j \<and> px a y x \<noteq> background"
  have "count_cells ?P (i - 4) (min (nrows a) (i + 5)) (j - 4) (min (ncols a) (j + 5))
      \<le> (min (nrows a) (i + 5) - (i - 4)) * (min (ncols a) (j + 5) - (j - 4))"
    by (rule count_cells_le)
  with assms show ?thesis
    unfolding filter_pixel_eq by auto
qed

lemma border_window_small:
  assumes "i < 3 \<or> r \<le> i + 3"
  shows "(min r (i + 5) - (i - 4)) * (min c (j + 5) - (j - 4)) \<le> 7 * (9::nat)"
proof -
  have "min r (i + 5) - (i - 4) \<le> 7" using assms by auto
  moreover have "min c (j + 5) - (j - 4) \<le> 9" by auto
  ultimately show ?thesis by (rule mult_le_mono)
qed

lemma filter_pixel_border:
  assumes "i < 3 \<or> nrows a \<le> i + 3 \<or> j < 3 \<or> ncols a \<le> j + 3"
  shows "filter_pixel a double_0_8 i j = background"
proof -
  have "(min (nrows a) (i + 5) - (i - 4)) * (min (ncols a) (j + 5) - (j - 4)) \<le> 63"
  proof (cases "i < 3 \<or> nrows a \<le> i + 3")
    case True
    from border_window_small[OF this, of "ncols a" j] show ?thesis by simp
  next
    case False
    with assms have "j < 3 \<or> ncols a \<le> j + 3" by blast
    from border_window_small[OF this, of "nrows a" i] show ?thesis by (simp add: mult.commute)
  qed
  then show ?thesis
    by (intro filter_pixel_small_window) (simp add: min_required_0_8)
qed

text \<open>
  Claim C10. With the threshold of \<open>min_homogeneity = 0.8\<close>, every pixel whose row is among
  the first three or the last three rows, or whose column is among the first three or the last
  three columns, is background in the output of \<open>apply_strict_majority_filter_numba\<close>,
  whatever the input holds: its window, clipped at the edge, has at most \<open>7 * 9 = 63\<close>
  cells, fewer than the 65 the pixel needs to keep its label.
\<close>

theorem border_pixels_reset:
  "i < nrows a \<and> j < ncols a \<and> (i < 3 \<or> nrows a \<le> i + 3 \<or> j < 3 \<or> ncols a \<le> j + 3)
   \<longrightarrow> px (apply_strict_majority_filter_numba a double_0_8) i j = background"
proof
  assume h: "i < nrows a \<and> j < ncols a \<and> (i < 3 \<or> nrows a \<le> i + 3 \<or> j < 3 \<or> ncols a \<le> j + 3)"
  then have "filter_pixel a double_0_8 i j = background"
    by (intro filter_pixel_border) blast
  with h show "px (apply_strict_majority_filter_numba a double_0_8) i j = background"
    by (simp add: apply_strict_majority_filter_numba_def)
qed

lemma filter_pixel_uniform_block:
  assumes "4 \<le> i" "i + 5 \<le> nrows a" "4 \<le> j" "j + 5 \<le> ncols a" "v \<noteq> background"
    and blk: "\<And>y x. i - 4 \<le> y \<Longrightarrow> y \<le> i + 4 \<Longrightarrow> j - 4 \<le> x \<Longrightarrow> x \<le> j + 4 \<Longrightarrow> px a y x = v"
  shows "filter_pixel a double_0_8 i j = v"
proof -
  have cur: "px a i j = v" using blk[of i j] by simp
  have "count_cells (\<lambda>y x. px a y x = v \<and> px a y x \<noteq> background) (i - 4) (i + 5) (j - 4) (j + 5)
      = (i + 5 - (i - 4)) * (j + 5 - (j - 4))"
    using assms(5) blk by (intro count_cells_all) auto
  also have "\<dots> = 81" using assms(1,3) by simp
  finally have "count_cells (\<lambda>y x. px a y x = v \<and> px a y x \<noteq> background) (i - 4) (i + 5) (j - 4) (j + 5) = 81" .
  moreover have "min (nrows a) (i + 5) = i + 5" "min (ncols a) (j + 5) = j + 5"
    using assms(2,4) by auto
  ultimately show ?thesis using assms(5) cur
    unfolding filter_pixel_eq by (simp only: min_required_0_8) simp
qed

lemma filter_pixel_checkerboard:
  assumes "c1 \<noteq> c2"
    and cb: "\<And>y x. y < nrows b \<Longrightarrow> x < ncols b \<Longrightarrow> px b y x = (if even (y + x) then c1 else c2)"
    and "i < nrows b" "j < ncols b"
  shows "filter_pixel b double_0_8 i j = background"
proof -
  let ?y1 = "min (nrows b) (i + 5)" and ?x1 = "min (ncols b) (j + 5)"
  let ?P = "\<lambda>y x. y < nrows b \<and> x < ncols b \<and> Suc x < Suc (ncols b) \<and> px b y x = px b i j \<and> px b y x \<noteq> background"
  let ?R = "\<lambda>y x. y < nrows b \<and> x < ncols b \<and> even (y + x) = even (i + j)"
  have eq: "count_cells (\<lambda>y x. px b y x = px b i j \<and> px b y x \<noteq> background) (i - 4) ?y1 (j - 4) ?x1
      \<le> count_cells ?R (i - 4) ?y1 (j - 4) ?x1"
    unfolding count_cells_def
    apply (intro sum_list_mono)
    using assms by (auto split: if_splits)
  have "count_cells ?R (i - 4) ?y1 (j - 4) ?x1 \<le> (?y1 - (i - 4)) * ((?x1 - (j - 4) + 1) div 2)"
    by (intro count_cells_alternating) auto
  also have "\<dots> \<le> 9 * 5"
    by (intro mult_le_mono) auto
  finally have "count_cells (\<lambda>y x. px b y x = px b i j \<and> px b y x \<noteq> background) (i - 4) ?y1 (j - 4) ?x1 < 65"
    using eq by simp
  then show ?thesis
    unfolding filter_pixel_eq by (simp only: min_required_0_8) simp
qed

lemma edge_count_65:
  "count_cells (\<lambda>y x. px (edge_raster 65) y x = 1 \<and> px (edge_raster 65) y x \<noteq> background)
     6 15 6 15 = 65"
  by (simp add: count_cells_def edge_raster_def background_def)

lemma edge_count_64:
  "count_cells (\<lambda>y x. px (edge_raster 64) y x = 1 \<and> px (edge_raster 64) y x \<noteq> background)
     6 15 6 15 = 64"
  by (simp add: count_cells_def edge_raster_def background_def)

text \<open>
  Claim C6. With kernel size 9 and \<open>min_homogeneity = 0.8\<close> the threshold is 65, and it is
  the threshold of the filter: every pixel of the output holds the input's label when the
  label is not background and at least 65 cells of the window (the pixel's own among them)
  hold the same label, and background otherwise. A pixel at the centre of a 9 by 9 block that
  holds one class value, not background, keeps the value (the count is 81). On a checkerboard
  of two different values every pixel of the output is background.
\<close>

theorem homogeneity_threshold:
  "min_required double_0_8 = 65 \<and>
   (\<forall>r c. r < nrows a \<and> c < ncols a \<longrightarrow>
      px (apply_strict_majority_filter_numba a double_0_8) r c =
        (if px a r c \<noteq> background \<and>
            65 \<le> count_cells (\<lambda>y x. px a y x = px a r c \<and> px a y x \<noteq> background)
                    (r - 4) (min (nrows a) (r + 5)) (c - 4) (min (ncols a) (c + 5))
         then px a r c else background)) \<and>
   (4 \<le> i \<and> i + 5 \<le> nrows a \<and> 4 \<le> j \<and> j + 5 \<le> ncols a \<and> v \<noteq> background \<and>
    (\<forall>y x. i - 4 \<le> y \<and> y \<le> i + 4 \<and> j - 4 \<le> x \<and> x \<le> j + 4 \<longrightarrow> px a y x = v)
    \<longrightarrow> px (apply_strict_majority_filter_numba a double_0_8) i j = v) \<and>
   (c1 \<noteq> c2 \<and> (\<forall>y x. y < nrows b \<and> x < ncols b \<longrightarrow> px b y x = (if even (y + x) then c1 else c2))
    \<longrightarrow> (\<forall>i<nrows b. \<forall>j<ncols b. px (apply_strict_majority_filter_numba b double_0_8) i j = background))"
proof (intro conjI impI allI)
  show "min_required double_0_8 = 65" by (rule min_required_0_8)
next
  fix r c
  assume rc: "r < nrows a \<and> c < ncols a"
  have "filter_pixel a double_0_8 r c =
        (if px a r c \<noteq> background \<and>
            65 \<le> count_cells (\<lambda>y x. px a y x = px a r c \<and> px a y x \<noteq> background)
                    (r - 4) (min (nrows a) (r + 5)) (c - 4) (min (ncols a) (c + 5))
         then px a r c else background)"
    unfolding filter_pixel_eq by (simp only: min_required_0_8) simp
  with rc show "px (apply_strict_majority_filter_numba a double_0_8) r c =
        (if px a r c \<noteq> background \<and>
            65 \<le> count_cells (\<lambda>y x. px a y x = px a r c \<and> px a y x \<noteq> background)
                    (r - 4) (min (nrows a) (r + 5)) (c - 4) (min (ncols a) (c + 5))
         then px a r c else background)"
    by (simp add: apply_strict_majority_filter_numba_def)
next
  assume h: "4 \<le> i \<and> i + 5 \<le> nrows a \<and> 4 \<le> j \<and> j + 5 \<le> ncols a \<and> v \<noteq> background \<and>
    (\<forall>y x. i - 4 \<le> y \<and> y \<le> i + 4 \<and> j - 4 \<le> x \<and> x \<le> j + 4 \<longrightarrow> px a y x = v)"
  then have "filter_pixel a double_0_8 i j = v"
    by (intro filter_pixel_uniform_block) auto
  with h show "px (apply_strict_majority_filter_numba a double_0_8) i j = v"
    by (simp add: apply_strict_majority_filter_numba_def)
next
  fix i j
  assume h: "c1 \<noteq> c2 \<and> (\<forall>y x. y < nrows b \<and> x < ncols b \<longrightarrow> px b y x = (if even (y + x) then c1 else c2))"
    and "i < nrows b" "j < ncols b"
  then have "filter_pixel b double_0_8 i j = background"
    by (intro filter_pixel_checkerboard[of c1 c2]) auto
  then show "px (apply_strict_majority_filter_numba b double_0_8) i j = background"
    by (simp add: apply_strict_majority_filter_numba_def)
qed

subsection \<open>One batch\<close>

text \<open>The arithmetic of one axis of a batch: the core is as long as the batch and lies in the read.\<close>

lemma core_axis:
  fixes ys ye rows ov y :: nat
  assumes "ys \<le> y" "y < ye" "ye \<le> rows"
  defines "ysr \<equiv> max 0 (ys - ov)"
  defines "B \<equiv> min rows (ye + ov) - ysr"
  defines "cys \<equiv> ys - ysr"
  shows "min (cys + (ye - ys)) B - min cys B = ye - ys"
    and "cys + (y - ys) < B"
    and "ysr + (cys + (y - ys)) = y"
  using assms(1-3) unfolding ysr_def B_def cys_def by auto

lemma core_axis_outside:
  fixes ys ye ysr B cys y :: nat
  assumes "\<not> (ys \<le> y \<and> y < ye)"
  shows "(ys \<le> y \<and> y < ys + (min (cys + (ye - ys)) B - min cys B) \<and> R) = False"
    and "(ys \<le> y \<and> y < ys + (min (cys + (ye - ys)) B - min cys B)) = False"
  using assms by auto

lemma shape_numba:
  "nrows (apply_strict_majority_filter_numba a h) = nrows a"
  "ncols (apply_strict_majority_filter_numba a h) = ncols a"
  by (simp_all add: apply_strict_majority_filter_numba_def)

lemma shape_ReadAsArray:
  "nrows (ReadAsArray ds xoff yoff xsize ysize) = ysize"
  "ncols (ReadAsArray ds xoff yoff xsize ysize) = xsize"
  by (simp_all add: ReadAsArray_def)

lemma px_WriteArray:
  "px (WriteArray ds arr xoff yoff) y x =
     (if yoff \<le> y \<and> y < yoff + nrows arr \<and> xoff \<le> x \<and> x < xoff + ncols arr
      then px arr (y - yoff) (x - xoff) else px ds y x)"
  by (simp add: WriteArray_def)

lemma shape_WriteArray:
  "nrows (WriteArray ds arr xoff yoff) = nrows ds"
  "ncols (WriteArray ds arr xoff yoff) = ncols ds"
  by (simp_all add: WriteArray_def)

lemma px_filter_batch:
  "px (out_ds (filter_batch ov src h bs st by bx)) y x =
     (if by * bs \<le> y \<and>
         y < by * bs +
             (min (by * bs - max 0 (by * bs - ov) + (min ((by + 1) * bs) (nrows src) - by * bs))
                  (min (nrows src) (min ((by + 1) * bs) (nrows src) + ov) - max 0 (by * bs - ov))
              - min (by * bs - max 0 (by * bs - ov))
                  (min (nrows src) (min ((by + 1) * bs) (nrows src) + ov) - max 0 (by * bs - ov))) \<and>
         bx * bs \<le> x \<and>
         x < bx * bs +
             (min (bx * bs - max 0 (bx * bs - ov) + (min ((bx + 1) * bs) (ncols src) - bx * bs))
                  (min (ncols src) (min ((bx + 1) * bs) (ncols src) + ov) - max 0 (bx * bs - ov))
              - min (bx * bs - max 0 (bx * bs - ov))
                  (min (ncols src) (min ((bx + 1) * bs) (ncols src) + ov) - max 0 (bx * bs - ov)))
      then px (apply_strict_majority_filter_numba
                (ReadAsArray src (max 0 (bx * bs - ov)) (max 0 (by * bs - ov))
                   (min (ncols src) (min ((bx + 1) * bs) (ncols src) + ov) - max 0 (bx * bs - ov))
                   (min (nrows src) (min ((by + 1) * bs) (nrows src) + ov) - max 0 (by * bs - ov))) h)
             (by * bs - max 0 (by * bs - ov) + (y - by * bs))
             (bx * bs - max 0 (bx * bs - ov) + (x - bx * bs))
      else px (out_ds st) y x)"
  unfolding filter_batch_def Let_def slice2d_def
  by (simp only: px_WriteArray array2d.simps filter_state.simps shape_numba shape_ReadAsArray)


lemma filter_batch_outside:
  assumes "\<not> in_core src bs by bx y x"
  shows "px (out_ds (filter_batch ov src h bs st by bx)) y x = px (out_ds st) y x"
proof -
  from assms consider
      "\<not> (by * bs \<le> y \<and> y < min ((by + 1) * bs) (nrows src))"
    | "\<not> (bx * bs \<le> x \<and> x < min ((bx + 1) * bs) (ncols src))"
    unfolding in_core_def by blast
  then show ?thesis
  proof cases
    case 1
    show ?thesis
      unfolding px_filter_batch by (simp only: core_axis_outside(1)[OF 1] if_False)
  next
    case 2
    show ?thesis
      unfolding px_filter_batch by (simp only: core_axis_outside(2)[OF 2] if_False simp_thms)
  qed
qed

text \<open>
  Inside the core the batch writes the kernel's value for the array it read, at the pixel's
  place in that array.
\<close>

lemma filter_batch_core:
  assumes "in_core src bs by bx y x"
  shows "\<exists>ysr xsr.
           ysr = max 0 (by * bs - ov) \<and> xsr = max 0 (bx * bs - ov) \<and> ysr \<le> y \<and> xsr \<le> x \<and>
           px (out_ds (filter_batch ov src h bs st by bx)) y x =
             filter_pixel
               (ReadAsArray src xsr ysr
                  (min (ncols src) (min ((bx + 1) * bs) (ncols src) + ov) - xsr)
                  (min (nrows src) (min ((by + 1) * bs) (nrows src) + ov) - ysr))
               h (y - ysr) (x - xsr)"
proof -
  define ys where "ys = by * bs"
  define ye where "ye = min ((by + 1) * bs) (nrows src)"
  define xs where "xs = bx * bs"
  define xe where "xe = min ((bx + 1) * bs) (ncols src)"
  from assms have ry: "ys \<le> y" "y < ye" "ye \<le> nrows src" and rx: "xs \<le> x" "x < xe" "xe \<le> ncols src"
    unfolding in_core_def ys_def ye_def xs_def xe_def by auto
  note ay = core_axis[OF ry, of ov] and ax = core_axis[OF rx, of ov]
  have ly: "ys - max 0 (ys - ov) + (y - ys) = y - max 0 (ys - ov)" "max 0 (ys - ov) \<le> y"
    using ry by auto
  have lx: "xs - max 0 (xs - ov) + (x - xs) = x - max 0 (xs - ov)" "max 0 (xs - ov) \<le> x"
    using rx by auto
  have in_y: "ys \<le> y \<and> y < ys + (ye - ys)" using ry by auto
  have in_x: "xs \<le> x \<and> x < xs + (xe - xs)" using rx by auto
  have "px (out_ds (filter_batch ov src h bs st by bx)) y x =
      px (apply_strict_majority_filter_numba
            (ReadAsArray src (max 0 (xs - ov)) (max 0 (ys - ov))
               (min (ncols src) (xe + ov) - max 0 (xs - ov))
               (min (nrows src) (ye + ov) - max 0 (ys - ov))) h)
         (ys - max 0 (ys - ov) + (y - ys)) (xs - max 0 (xs - ov) + (x - xs))"
    unfolding px_filter_batch ye_def[symmetric] xe_def[symmetric] ys_def[symmetric] xs_def[symmetric]
    using in_y in_x by (simp only: ay(1) ax(1) if_True simp_thms)
  also have "\<dots> = filter_pixel
            (ReadAsArray src (max 0 (xs - ov)) (max 0 (ys - ov))
               (min (ncols src) (xe + ov) - max 0 (xs - ov))
               (min (nrows src) (ye + ov) - max 0 (ys - ov))) h
         (ys - max 0 (ys - ov) + (y - ys)) (xs - max 0 (xs - ov) + (x - xs))"
    using ay(2) ax(2)
    by (simp only: apply_strict_majority_filter_numba_def array2d.simps shape_ReadAsArray if_True simp_thms)
  finally show ?thesis
    using ly lx unfolding ys_def xs_def ye_def xe_def by (simp only: simp_thms ex_simps)
qed


lemma filter_batch_background:
  assumes "in_core src bs by bx y x" "px src y x = background"
  shows "px (out_ds (filter_batch ov src h bs st by bx)) y x = background"
proof -
  from filter_batch_core[OF assms(1), of ov h st] obtain ysr xsr where
    le: "ysr \<le> y" "xsr \<le> x" and
    v: "px (out_ds (filter_batch ov src h bs st by bx)) y x =
         filter_pixel
           (ReadAsArray src xsr ysr
              (min (ncols src) (min ((bx + 1) * bs) (ncols src) + ov) - xsr)
              (min (nrows src) (min ((by + 1) * bs) (nrows src) + ov) - ysr))
           h (y - ysr) (x - xsr)"
    by blast
  show ?thesis
    unfolding v using le assms(2) by (intro filter_pixel_background) (simp add: ReadAsArray_def)
qed

text \<open>With the overlap of the source, the kernel sees in the batch the window it sees in the raster.\<close>

lemma filter_batch_same_as_whole:
  assumes "in_core src bs by bx y x"
  shows "px (out_ds (filter_batch (kernel_size div 2) src h bs st by bx)) y x = filter_pixel src h y x"
proof -
  define ys where "ys = by * bs"
  define ye where "ye = min ((by + 1) * bs) (nrows src)"
  define xs where "xs = bx * bs"
  define xe where "xe = min ((bx + 1) * bs) (ncols src)"
  define ysr where "ysr = max 0 (ys - 4)"
  define xsr where "xsr = max 0 (xs - 4)"
  define B where "B = min (nrows src) (ye + 4) - ysr"
  define W where "W = min (ncols src) (xe + 4) - xsr"
  from assms have ry: "ys \<le> y" "y < ye" "ye \<le> nrows src" and rx: "xs \<le> x" "x < xe" "xe \<le> ncols src"
    unfolding in_core_def ys_def ye_def xs_def xe_def by auto
  have k: "kernel_size div 2 = 4" by (simp add: kernel_size_def)
  from filter_batch_core[OF assms, of 4 h st]
  have v: "px (out_ds (filter_batch 4 src h bs st by bx)) y x =
      filter_pixel (ReadAsArray src xsr ysr W B) h (y - ysr) (x - xsr)"
    unfolding ysr_def xsr_def B_def W_def ys_def ye_def xs_def xe_def by blast
  have ly: "y - ysr = ys - ysr + (y - ys)" and lx: "x - xsr = xs - xsr + (x - xs)"
    using ry rx unfolding ysr_def xsr_def by auto
  have wy: "ysr + (y - ysr - 4) = y - 4" "ysr + min B (y - ysr + 5) = min (nrows src) (y + 5)"
    using ry unfolding ysr_def B_def by auto
  have wx: "xsr + (x - xsr - 4) = x - 4" "xsr + min W (x - xsr + 5) = min (ncols src) (x + 5)"
    using rx unfolding xsr_def W_def by auto
  have bk: "ysr + (y - ysr) = y" "xsr + (x - xsr) = x"
    using ry rx unfolding ysr_def xsr_def by auto
  let ?P = "\<lambda>y' x'. px src y' x' = px src y x \<and> px src y' x' \<noteq> background"
  have cnt: "count_cells (\<lambda>y' x'. ?P (ysr + y') (xsr + x')) (y - ysr - 4) (min B (y - ysr + 5))
               (x - xsr - 4) (min W (x - xsr + 5))
             = count_cells ?P (y - 4) (min (nrows src) (y + 5)) (x - 4) (min (ncols src) (x + 5))"
    using count_cells_shift[of ?P ysr xsr "y - ysr - 4" "min B (y - ysr + 5)" "x - xsr - 4" "min W (x - xsr + 5)"]
    by (simp only: wy wx)
  have "filter_pixel (ReadAsArray src xsr ysr W B) h (y - ysr) (x - xsr) = filter_pixel src h y x"
    unfolding filter_pixel_eq
    by (simp only: ReadAsArray_def array2d.simps bk cnt)
  with v show ?thesis unfolding k by simp
qed

subsection \<open>The loop over the batches\<close>

lemma foldl_keeps:
  assumes "\<And>s b. G s \<Longrightarrow> G (F s b)" "G s"
  shows "G (foldl F s xs)"
  using assms(2) by (induction xs arbitrary: s) (auto intro: assms(1))

lemma foldl_reaches:
  assumes "\<And>s b. G s \<Longrightarrow> G (F s b)" "\<And>s. G (F s b0)" "b0 \<in> set xs"
  shows "G (foldl F s xs)"
  using assms(3)
proof (induction xs arbitrary: s)
  case Nil
  then show ?case by simp
next
  case (Cons b xs)
  show ?case
  proof (cases "b = b0")
    case True
    have "G (foldl F (F s b0) xs)"
      by (rule foldl_keeps[of G F]) (rule assms(1), assumption, rule assms(2))
    with True show ?thesis by simp
  next
    case False
    with Cons.prems have "b0 \<in> set xs" by simp
    from Cons.IH[OF this] show ?thesis by simp
  qed
qed

lemma ceil_div_covers:
  assumes "0 < bs" "y < rows"
  shows "y div bs < ceil_div rows bs"
    and "(y div bs) * bs \<le> y" and "y < min ((y div bs + 1) * bs) rows"
proof -
  have "y div bs \<le> (rows - 1) div bs" using assms(2) by (intro div_le_mono) simp
  also have "\<dots> < (rows - 1 + bs) div bs" using assms(1) by simp
  also have "rows - 1 + bs = rows + bs - 1" using assms(2) by simp
  finally show "y div bs < ceil_div rows bs" by (simp add: ceil_div_def)
  show "(y div bs) * bs \<le> y" by simp
  have "y < (y div bs + 1) * bs" using assms(1)
    by (metis Suc_eq_plus1 dividend_less_div_times mult.commute mult_Suc_right)
  with assms(2) show "y < min ((y div bs + 1) * bs) rows" by simp
qed

text \<open>
  A property of the value of a pixel that every batch establishes on its core holds for every
  pixel of the raster once the loop has run.
\<close>

lemma batches_establish:
  assumes core: "\<And>st by bx. in_core src bs by bx y x \<Longrightarrow>
                   Q (px (out_ds (filter_batch ov src h bs st by bx)) y x)"
    and "0 < bs" "y < nrows src" "x < ncols src"
  shows "Q (px (out_ds
            (foldl (\<lambda>st by. foldl (\<lambda>st bx. filter_batch ov src h bs st by bx) st [0..<ceil_div (ncols src) bs])
               st0 [0..<ceil_div (nrows src) bs])) y x)"
proof -
  let ?G = "\<lambda>st. Q (px (out_ds st) y x)"
  let ?F = "\<lambda>by st bx. filter_batch ov src h bs st by bx"
  have step: "?G (?F b st bx)" if "?G st" for st b bx
  proof (cases "in_core src bs b bx y x")
    case True
    then show ?thesis by (rule core)
  next
    case False
    from filter_batch_outside[OF this] that show ?thesis by simp
  qed
  have inner_keeps: "?G (foldl (?F b) st xs)" if "?G st" for st b xs
  proof (rule foldl_keeps[of ?G "?F b"])
    show "?G (?F b s c)" if "?G s" for s c using that by (rule step)
    show "?G st" by (rule that)
  qed
  have cy: "in_core src bs (y div bs) (x div bs) y x"
    using ceil_div_covers(2,3)[OF assms(2,3)] ceil_div_covers(2,3)[OF assms(2,4)]
    unfolding in_core_def by blast
  have inner_hit: "?G (foldl (?F (y div bs)) st [0..<ceil_div (ncols src) bs])" for st
  proof (rule foldl_reaches[of ?G "?F (y div bs)" "x div bs"])
    show "?G (?F (y div bs) s b)" if "?G s" for s b using that by (rule step)
    show "?G (?F (y div bs) s (x div bs))" for s using cy by (rule core)
    show "x div bs \<in> set [0..<ceil_div (ncols src) bs]"
      using ceil_div_covers(1)[OF assms(2,4)] by simp
  qed
  show ?thesis
  proof (rule foldl_reaches[of ?G "\<lambda>st b. foldl (?F b) st [0..<ceil_div (ncols src) bs]" "y div bs"])
    show "?G (foldl (?F b) s [0..<ceil_div (ncols src) bs])" if "?G s" for s b
      using that by (rule inner_keeps)
    show "?G (foldl (?F (y div bs)) s [0..<ceil_div (ncols src) bs])" for s
      by (rule inner_hit)
    show "y div bs \<in> set [0..<ceil_div (nrows src) bs]"
      using ceil_div_covers(1)[OF assms(2,3)] by simp
  qed
qed

lemma batches_shape:
  "nrows (out_ds (foldl (\<lambda>st by. foldl (\<lambda>st bx. filter_batch ov src h bs st by bx) st xs) st0 ys))
     = nrows (out_ds st0) \<and>
   ncols (out_ds (foldl (\<lambda>st by. foldl (\<lambda>st bx. filter_batch ov src h bs st by bx) st xs) st0 ys))
     = ncols (out_ds st0)"
proof -
  let ?G = "\<lambda>st. nrows (out_ds st) = nrows (out_ds st0) \<and> ncols (out_ds st) = ncols (out_ds st0)"
  have step: "?G (filter_batch ov src h bs st b bx)" if "?G st" for st b bx
    using that by (simp add: filter_batch_def Let_def shape_WriteArray)
  have inner: "?G (foldl (\<lambda>st bx. filter_batch ov src h bs st b bx) st xs)" if "?G st" for st b
  proof (rule foldl_keeps[of ?G "\<lambda>st bx. filter_batch ov src h bs st b bx"])
    show "?G (filter_batch ov src h bs s b c)" if "?G s" for s c using that by (rule step)
    show "?G st" by (rule that)
  qed
  have "?G (foldl (\<lambda>st by. foldl (\<lambda>st bx. filter_batch ov src h bs st by bx) st xs) st0 ys)"
  proof (rule foldl_keeps[of ?G "\<lambda>st by. foldl (\<lambda>st bx. filter_batch ov src h bs st by bx) st xs"])
    show "?G (foldl (\<lambda>st bx. filter_batch ov src h bs st b bx) s xs)" if "?G s" for s b
      using that by (rule inner)
    show "?G st0" by simp
  qed
  then show ?thesis .
qed

subsection \<open>The filter claims\<close>

text \<open>
  Claim C7. A pixel that is background in the input is background in the output of the kernel
  and, for every batch size that is not 0 and every overlap, in the output of the batched
  filter, which returns a result for every such configuration. The source's
  \<open>apply_strict_majority_filter_batched\<close> is \<open>filter_batches\<close> at the overlap
  \<open>kernel_size div 2\<close>.
\<close>

theorem background_stays_background:
  "(\<forall>i j. i < nrows src \<and> j < ncols src \<and> px src i j = background
      \<longrightarrow> px (apply_strict_majority_filter_numba src h) i j = background) \<and>
   (0 < batch_size \<longrightarrow>
     (\<exists>st. filter_batches overlap src fresh h batch_size = Inr st \<and>
        nrows (out_ds st) = nrows src \<and> ncols (out_ds st) = ncols src \<and>
        (\<forall>i j. i < nrows src \<and> j < ncols src \<and> px src i j = background
           \<longrightarrow> px (out_ds st) i j = background))) \<and>
   apply_strict_majority_filter_batched src fresh h batch_size =
     filter_batches (kernel_size div 2) src fresh h batch_size"
proof (intro conjI impI allI)
  show "apply_strict_majority_filter_batched src fresh h batch_size =
     filter_batches (kernel_size div 2) src fresh h batch_size"
    by (simp add: apply_strict_majority_filter_batched_def)
next
  fix i j
  assume "i < nrows src \<and> j < ncols src \<and> px src i j = background"
  then show "px (apply_strict_majority_filter_numba src h) i j = background"
    by (simp add: apply_strict_majority_filter_numba_def filter_pixel_background)
next
  assume pos: "0 < batch_size"
  let ?st0 = "\<lparr>out_ds = \<lparr>nrows = nrows src, ncols = ncols src, px = fresh\<rparr>,
               total_pixels_removed = 0, total_pixels_processed = 0\<rparr>"
  let ?st = "foldl (\<lambda>st by. foldl (\<lambda>st bx. filter_batch overlap src h batch_size st by bx) st
                       [0..<ceil_div (ncols src) batch_size])
               ?st0 [0..<ceil_div (nrows src) batch_size]"
  have run: "filter_batches overlap src fresh h batch_size = Inr ?st"
    using pos by (simp add: filter_batches_def Let_def)
  have shape: "nrows (out_ds ?st) = nrows src \<and> ncols (out_ds ?st) = ncols src"
    by (simp add: batches_shape)
  have bg: "px (out_ds ?st) i j = background"
    if "i < nrows src \<and> j < ncols src \<and> px src i j = background" for i j
  proof (rule batches_establish[where Q = "\<lambda>v. v = background"])
    show "px (out_ds (filter_batch overlap src h batch_size st b bx)) i j = background"
      if "in_core src batch_size b bx i j" for st b bx
      using that \<open>i < nrows src \<and> j < ncols src \<and> px src i j = background\<close>
      by (intro filter_batch_background) auto
  qed (use pos that in auto)
  show "\<exists>st. filter_batches overlap src fresh h batch_size = Inr st \<and>
        nrows (out_ds st) = nrows src \<and> ncols (out_ds st) = ncols src \<and>
        (\<forall>i j. i < nrows src \<and> j < ncols src \<and> px src i j = background
           \<longrightarrow> px (out_ds st) i j = background)"
    using run shape bg by blast
qed

theorem background_stays_background_witness:
  "px (apply_strict_majority_filter_numba example_raster double_0_8) 1 1 = background \<and>
   (\<exists>st. filter_batches 1 example_raster (\<lambda>y x. 0) double_0_8 2 = Inr st \<and>
      nrows (out_ds st) = 3 \<and> ncols (out_ds st) = 3 \<and> px (out_ds st) 1 1 = background)"
proof -
  have e: "(1::nat) < nrows example_raster" "(1::nat) < ncols example_raster"
    "px example_raster 1 1 = background" "nrows example_raster = 3" "ncols example_raster = 3"
    by (simp_all add: example_raster_def of_rows_def background_def)
  have p: "(0::nat) < 2" by simp
  from background_stays_background[of example_raster double_0_8 2 1 "\<lambda>y x. 0"] e p
  show ?thesis by metis
qed

text \<open>
  Claim C3. For every input raster, every batch size that is not 0 (2048 in the pipeline) and
  every threshold (0.8 in the pipeline), the batched filter returns a raster of the input's
  shape that holds, at every pixel, the value \<open>apply_strict_majority_filter_numba\<close> gives
  for the whole raster.
\<close>

theorem batched_filter_equals_whole:
  "0 < batch_size \<Longrightarrow>
   \<exists>st. apply_strict_majority_filter_batched src fresh h batch_size = Inr st \<and>
     nrows (out_ds st) = nrows (apply_strict_majority_filter_numba src h) \<and>
     ncols (out_ds st) = ncols (apply_strict_majority_filter_numba src h) \<and>
     (\<forall>i j. i < nrows src \<and> j < ncols src
        \<longrightarrow> px (out_ds st) i j = px (apply_strict_majority_filter_numba src h) i j)"
proof -
  assume pos: "0 < batch_size"
  let ?ov = "kernel_size div 2"
  let ?st0 = "\<lparr>out_ds = \<lparr>nrows = nrows src, ncols = ncols src, px = fresh\<rparr>,
               total_pixels_removed = 0, total_pixels_processed = 0\<rparr>"
  let ?st = "foldl (\<lambda>st by. foldl (\<lambda>st bx. filter_batch ?ov src h batch_size st by bx) st
                       [0..<ceil_div (ncols src) batch_size])
               ?st0 [0..<ceil_div (nrows src) batch_size]"
  have run: "apply_strict_majority_filter_batched src fresh h batch_size = Inr ?st"
    using pos by (simp add: apply_strict_majority_filter_batched_def filter_batches_def Let_def)
  have shape: "nrows (out_ds ?st) = nrows (apply_strict_majority_filter_numba src h) \<and>
               ncols (out_ds ?st) = ncols (apply_strict_majority_filter_numba src h)"
    by (simp add: batches_shape shape_numba)
  have same: "px (out_ds ?st) i j = px (apply_strict_majority_filter_numba src h) i j"
    if ij: "i < nrows src \<and> j < ncols src" for i j
  proof -
    have "px (out_ds ?st) i j = filter_pixel src h i j"
    proof (rule batches_establish[where Q = "\<lambda>v. v = filter_pixel src h i j"])
      show "px (out_ds (filter_batch ?ov src h batch_size st b bx)) i j = filter_pixel src h i j"
        if "in_core src batch_size b bx i j" for st b bx
        using that by (rule filter_batch_same_as_whole)
    qed (use pos ij in auto)
    with ij show ?thesis by (simp add: apply_strict_majority_filter_numba_def)
  qed
  show ?thesis using run shape same by blast
qed

theorem batched_filter_equals_whole_witness:
  "\<exists>st. apply_strict_majority_filter_batched example_raster (\<lambda>y x. 0) double_0_8 2 = Inr st \<and>
     px (out_ds st) 2 2 = px (apply_strict_majority_filter_numba example_raster double_0_8) 2 2"
proof -
  have e: "(2::nat) < nrows example_raster" "(2::nat) < ncols example_raster"
    by (simp_all add: example_raster_def of_rows_def)
  have p: "(0::nat) < 2" by simp
  from batched_filter_equals_whole[OF p, of example_raster "\<lambda>y x. 0" double_0_8] e
  show ?thesis by blast
qed

theorem border_pixels_reset_witness:
  "px (apply_strict_majority_filter_numba uniform_raster double_0_8) 2 10 = background"
  using border_pixels_reset[of 2 uniform_raster 10] by (simp add: uniform_raster_def)

theorem homogeneity_threshold_witness:
  "min_required double_0_8 = 65 \<and>
   px (apply_strict_majority_filter_numba (edge_raster 65) double_0_8) 10 10 = 1 \<and>
   px (apply_strict_majority_filter_numba (edge_raster 64) double_0_8) 10 10 = background \<and>
   px (apply_strict_majority_filter_numba uniform_raster double_0_8) 10 10 = 1 \<and>
   px (apply_strict_majority_filter_numba checkerboard_raster double_0_8) 10 10 = background"
proof -
  have u: "(4::nat) \<le> 10 \<and> (10::nat) + 5 \<le> nrows uniform_raster \<and> (4::nat) \<le> 10 \<and>
      (10::nat) + 5 \<le> ncols uniform_raster \<and> (1::int) \<noteq> background \<and>
      (\<forall>y x. 10 - 4 \<le> y \<and> y \<le> 10 + 4 \<and> 10 - 4 \<le> x \<and> x \<le> 10 + 4 \<longrightarrow> px uniform_raster y x = 1)"
    by (simp add: uniform_raster_def background_def)
  have c: "(1::int) \<noteq> 2 \<and> (\<forall>y x. y < nrows checkerboard_raster \<and> x < ncols checkerboard_raster
      \<longrightarrow> px checkerboard_raster y x = (if even (y + x) then 1 else 2))"
    by (simp add: checkerboard_raster_def)
  have n: "(10::nat) < nrows checkerboard_raster" "(10::nat) < ncols checkerboard_raster"
    by (simp_all add: checkerboard_raster_def)
  have e: "(10::nat) < nrows (edge_raster k)" "(10::nat) < ncols (edge_raster k)"
    "nrows (edge_raster k) = 20" "ncols (edge_raster k) = 20" for k
    by (simp_all add: edge_raster_def)
  have p: "px (edge_raster 65) 10 10 = 1" "px (edge_raster 64) 10 10 = 1" "(1::int) \<noteq> background"
    by (simp_all add: edge_raster_def background_def)
  have w: "(10::nat) - 4 = 6" "min 20 ((10::nat) + 5) = 15" by simp_all
  from homogeneity_threshold[of uniform_raster 10 10 1 1 2 checkerboard_raster] u c n
  have a: "min_required double_0_8 = 65"
    "px (apply_strict_majority_filter_numba uniform_raster double_0_8) 10 10 = 1"
    "px (apply_strict_majority_filter_numba checkerboard_raster double_0_8) 10 10 = background"
    by blast+
  from homogeneity_threshold[of "edge_raster 65"] e[of 65]
  have "px (apply_strict_majority_filter_numba (edge_raster 65) double_0_8) 10 10 =
        (if px (edge_raster 65) 10 10 \<noteq> background \<and>
            65 \<le> count_cells (\<lambda>y x. px (edge_raster 65) y x = px (edge_raster 65) 10 10 \<and>
                                   px (edge_raster 65) y x \<noteq> background)
                    (10 - 4) (min (nrows (edge_raster 65)) (10 + 5)) (10 - 4) (min (ncols (edge_raster 65)) (10 + 5))
         then px (edge_raster 65) 10 10 else background)"
    by blast
  then have b: "px (apply_strict_majority_filter_numba (edge_raster 65) double_0_8) 10 10 = 1"
    by (simp only: e p w edge_count_65) simp
  from homogeneity_threshold[of "edge_raster 64"] e[of 64]
  have "px (apply_strict_majority_filter_numba (edge_raster 64) double_0_8) 10 10 =
        (if px (edge_raster 64) 10 10 \<noteq> background \<and>
            65 \<le> count_cells (\<lambda>y x. px (edge_raster 64) y x = px (edge_raster 64) 10 10 \<and>
                                   px (edge_raster 64) y x \<noteq> background)
                    (10 - 4) (min (nrows (edge_raster 64)) (10 + 5)) (10 - 4) (min (ncols (edge_raster 64)) (10 + 5))
         then px (edge_raster 64) 10 10 else background)"
    by blast
  then have d: "px (apply_strict_majority_filter_numba (edge_raster 64) double_0_8) 10 10 = background"
    by (simp only: e p w edge_count_64) simp
  from a b d show ?thesis by blast
qed

section \<open>Proofs: the label mapping\<close>

lemma original_to_new_label_step:
  "original_to_new (label_step m (k, x)) = (original_to_new m)(x \<mapsto> int k)"
  by (simp add: label_step_def Let_def)

lemma label_steps_other:
  "c \<notin> set xs \<Longrightarrow> original_to_new (foldl label_step m (enumerate k xs)) c = original_to_new m c"
  by (induction xs arbitrary: k m) (auto simp: original_to_new_label_step)

lemma label_steps_index:
  "distinct xs \<Longrightarrow> i < length xs \<Longrightarrow>
   original_to_new (foldl label_step m (enumerate k xs)) (xs ! i) = Some (int (k + i))"
proof (induction xs arbitrary: k m i)
  case Nil
  then show ?case by simp
next
  case (Cons x xs)
  show ?case
  proof (cases i)
    case 0
    with Cons.prems show ?thesis
      by (simp add: label_steps_other original_to_new_label_step)
  next
    case (Suc i')
    with Cons.prems Cons.IH[where i = i' and k = "Suc k" and m = "label_step m (k, x)"] show ?thesis by simp
  qed
qed

lemma label_steps_dom:
  "dom (original_to_new (foldl label_step m (enumerate k xs))) = dom (original_to_new m) \<union> set xs"
  by (induction xs arbitrary: k m) (auto simp: original_to_new_label_step)

text \<open>
  Claim C4. For a list \<open>C\<close> of distinct class codes without 0,
  \<open>create_alberta_label_mapping\<close> maps 0 to -99 and the code at position \<open>i\<close> of the
  sorted codes to \<open>i\<close>; the keys of the mapping are 0 and the codes, so the new labels are
  \<open>0, \<dots>, |C| - 1\<close> in ascending order of the codes. The result depends only on the set
  of codes: any other listing of the same codes gives the same mappings.
\<close>

theorem label_mapping_contiguous:
  "distinct C \<and> 0 \<notin> set C \<longrightarrow>
     original_to_new (fst (create_alberta_label_mapping C)) 0 = Some (- 99) \<and>
     snd (create_alberta_label_mapping C) = sort C \<and>
     (\<forall>i. i < length C \<longrightarrow>
        original_to_new (fst (create_alberta_label_mapping C)) (sort C ! i) = Some (int i)) \<and>
     dom (original_to_new (fst (create_alberta_label_mapping C))) = insert 0 (set C) \<and>
     (\<forall>C'. distinct C' \<and> set C' = set C \<longrightarrow>
        create_alberta_label_mapping C' = create_alberta_label_mapping C)"
proof (intro impI conjI allI)
  assume h: "distinct C \<and> 0 \<notin> set C"
  show "original_to_new (fst (create_alberta_label_mapping C)) 0 = Some (- 99)"
    using h by (simp add: create_alberta_label_mapping_def Let_def label_steps_other)
  show "snd (create_alberta_label_mapping C) = sort C"
    by (simp add: create_alberta_label_mapping_def Let_def)
  show "dom (original_to_new (fst (create_alberta_label_mapping C))) = insert 0 (set C)"
    by (simp add: create_alberta_label_mapping_def Let_def label_steps_dom)
  show "original_to_new (fst (create_alberta_label_mapping C)) (sort C ! i) = Some (int i)"
    if "i < length C" for i
    using h that label_steps_index[where xs = "sort C" and i = i and k = 0]
    by (simp add: create_alberta_label_mapping_def Let_def)
  show "create_alberta_label_mapping C' = create_alberta_label_mapping C"
    if "distinct C' \<and> set C' = set C" for C'
  proof -
    have "sort C' = sort C"
      using h that by (intro sorted_distinct_set_unique) auto
    then show ?thesis by (simp add: create_alberta_label_mapping_def)
  qed
qed

theorem label_mapping_contiguous_witness:
  "original_to_new (fst (create_alberta_label_mapping [15, 1, 5])) 0 = Some (- 99) \<and>
   snd (create_alberta_label_mapping [15, 1, 5]) = [1, 5, 15] \<and>
   original_to_new (fst (create_alberta_label_mapping [15, 1, 5])) 15 = Some 2 \<and>
   create_alberta_label_mapping [1, 5, 15] = create_alberta_label_mapping [15, 1, 5]"
proof -
  have d: "distinct [15, 1, 5 :: int] \<and> 0 \<notin> set [15, 1, 5 :: int]" by simp
  have d': "distinct [1, 5, 15 :: int] \<and> set [1, 5, 15 :: int] = set [15, 1, 5]" by auto
  have s: "sort [15, 1, 5 :: int] = [1, 5, 15]" by simp
  have i: "(2::nat) < length [15, 1, 5 :: int]" "[1, 5, 15 :: int] ! 2 = 15" by simp_all
  from label_mapping_contiguous[of "[15, 1, 5]"] d d' s i show ?thesis
    by (metis of_nat_numeral)
qed

section \<open>Proofs: remapping the ground truth\<close>

















section \<open>Proofs: splitting the selected patches\<close>

lemma bit_length_le: "n < 2 ^ k \<Longrightarrow> bit_length n \<le> k"
proof (induction k arbitrary: n)
  case 0
  then show ?case by (simp add: bit_length.simps)
next
  case (Suc k)
  show ?case
  proof (cases "n = 0")
    case True
    then show ?thesis by (simp add: bit_length.simps)
  next
    case False
    from Suc.prems have "n div 2 < 2 ^ k" by auto
    from Suc.IH[OF this] False show ?thesis by (subst bit_length.simps) simp
  qed
qed

lemma bit_length_lower: "0 < n \<Longrightarrow> 2 ^ (bit_length n - 1) \<le> n"
proof (induction n rule: bit_length.induct)
  case (1 n)
  show ?case
  proof (cases "n div 2 = 0")
    case True
    with 1(2) have "n = 1" by (auto simp: div_eq_0_iff)
    then show ?thesis by (simp add: bit_length.simps)
  next
    case False
    with 1 have ih: "2 ^ (bit_length (n div 2) - 1) \<le> n div 2" by simp
    from False have pos: "0 < bit_length (n div 2)" by (subst bit_length.simps) simp
    have "bit_length n = Suc (bit_length (n div 2))" using 1(2) by (subst bit_length.simps) simp
    then have "2 ^ (bit_length n - 1) = 2 * 2 ^ (bit_length (n div 2) - 1)"
      using pos by (cases "bit_length (n div 2)") simp_all
    also have "\<dots> \<le> 2 * (n div 2)" using ih by simp
    also have "\<dots> \<le> n" by simp
    finally show ?thesis .
  qed
qed

lemma round_to_double_exact: "n < 2 ^ 53 \<Longrightarrow> round_to_double n = n"
  using bit_length_le[of n 53] by (simp add: round_to_double_def Let_def)

text \<open>Rounding does not take a product below an integer it has reached.\<close>

lemma round_to_double_floor:
  assumes "K * 2 ^ t \<le> N" "K \<le> 2 ^ 52"
  shows "K \<le> round_to_double N div 2 ^ t"
proof -
  define s where "s = bit_length N - 53"
  define q where "q = N div 2 ^ s"
  have ge: "q * 2 ^ s \<le> round_to_double N"
    by (simp add: round_to_double_def Let_def s_def q_def)
  have "K * 2 ^ t \<le> q * 2 ^ s"
  proof (cases "s \<le> t")
    case True
    then have "(2::nat) ^ t = 2 ^ (t - s) * 2 ^ s" by (simp flip: power_add)
    then have "K * 2 ^ (t - s) * 2 ^ s \<le> N" using assms(1) by (simp add: mult.assoc)
    then have "K * 2 ^ (t - s) \<le> q" unfolding q_def
      by (metis div_le_mono div_mult_self_is_m zero_less_numeral zero_less_power)
    then have "K * 2 ^ (t - s) * 2 ^ s \<le> q * 2 ^ s" by simp
    then show ?thesis using \<open>(2::nat) ^ t = 2 ^ (t - s) * 2 ^ s\<close> by (simp add: mult.assoc)
  next
    case False
    then have st: "t < s" by simp
    then have spos: "0 < s" by simp
    then have bl: "bit_length N = s + 53" and npos: "0 < N"
      unfolding s_def by (auto simp: bit_length.simps[of 0] intro: Nat.gr0I)
    from bit_length_lower[OF npos] bl have "2 ^ (52 + s) \<le> N" by simp
    then have "2 ^ 52 * 2 ^ s \<le> N" by (simp only: power_add)
    then have "2 ^ 52 \<le> q" unfolding q_def
      by (metis div_le_mono div_mult_self_is_m zero_less_numeral zero_less_power)
    with assms(2) have "K \<le> q" by simp
    moreover have "(2::nat) ^ t \<le> 2 ^ s" using st by simp
    ultimately show ?thesis by (rule mult_le_mono)
  qed
  with ge have "K * 2 ^ t \<le> round_to_double N" by simp
  then show ?thesis
    by (metis div_le_mono div_mult_self_is_m zero_less_numeral zero_less_power)
qed


lemma py_int_times_ge:
  assumes "n < 2 ^ 53" "K * 2 ^ nexp d \<le> n * mant d" "K \<le> 2 ^ 52"
  shows "K \<le> py_int (int_times_double n d)"
  using round_to_double_floor[OF assms(2,3)] round_to_double_exact[OF assms(1)]
  by (simp add: py_int_def int_times_double_def)

lemma n_train_ge:
  assumes "n < 2 ^ 53"
  shows "2 \<le> n \<Longrightarrow> 1 \<le> py_int (int_times_double n double_0_7)"
    and "3 \<le> n \<Longrightarrow> 2 \<le> py_int (int_times_double n double_0_7)"
proof -
  have m: "mant double_0_7 = 3152519739159347" "nexp double_0_7 = 52"
    by (simp_all add: double_0_7_def)
  show "1 \<le> py_int (int_times_double n double_0_7)" if "2 \<le> n"
  proof (rule py_int_times_ge[OF assms])
    have "(1::nat) * 2 ^ 52 \<le> 2 * 3152519739159347" by simp
    also have "\<dots> \<le> n * 3152519739159347" using that by (intro mult_le_mono) auto
    finally show "1 * 2 ^ nexp double_0_7 \<le> n * mant double_0_7" by (simp only: m)
  qed simp
  show "2 \<le> py_int (int_times_double n double_0_7)" if "3 \<le> n"
  proof (rule py_int_times_ge[OF assms])
    have "(2::nat) * 2 ^ 52 \<le> 3 * 3152519739159347" by simp
    also have "\<dots> \<le> n * 3152519739159347" using that by (intro mult_le_mono) auto
    finally show "2 * 2 ^ nexp double_0_7 \<le> n * mant double_0_7" by (simp only: m)
  qed simp
qed

lemma split_sizes_nonneg:
  assumes "n < 2 ^ 53" "split_sizes n double_0_7 double_0_15 = (a, b, c)"
  shows "0 \<le> a \<and> 0 \<le> b"
proof -
  define t where "t = py_int (int_times_double n double_0_7)"
  define v where "v = py_int (int_times_double n double_0_15)"
  have t2: "2 \<le> n \<Longrightarrow> 1 \<le> t" and t3: "3 \<le> n \<Longrightarrow> 2 \<le> t"
    using n_train_ge[OF assms(1)] unfolding t_def by auto
  from assms(2) have
    "a = (if v = 0 \<and> 2 \<le> n
          then (if int n - int t - int v = 0 \<and> 3 \<le> n then int t - 1 else int t) - 1
          else (if int n - int t - int v = 0 \<and> 3 \<le> n then int t - 1 else int t))"
    and "b = (if v = 0 \<and> 2 \<le> n then 1 else int v)"
    unfolding split_sizes_def Let_def t_def[symmetric] v_def[symmetric]
    by (auto split: if_splits)
  then show ?thesis using t2 t3 by (auto split: if_splits)
qed

lemma py_slice_prefix: "0 \<le> a \<Longrightarrow> py_slice xs 0 a = take (nat a) xs"
  by (cases "nat a \<le> length xs") (auto simp: py_slice_def slice_bound_def min_def)

lemma py_slice_middle:
  "0 \<le> a \<Longrightarrow> 0 \<le> b \<Longrightarrow> py_slice xs a (a + b) = take (nat b) (drop (nat a) xs)"
  by (cases "nat a \<le> length xs")
     (auto simp: py_slice_def slice_bound_def min_def nat_add_distrib)

lemma py_slice_suffix:
  "0 \<le> a \<Longrightarrow> 0 \<le> b \<Longrightarrow> py_slice xs (a + b) (int (length xs)) = drop (nat a + nat b) xs"
  by (auto simp: py_slice_def slice_bound_def min_def nat_add_distrib)

lemma split_selected_parts:
  assumes "split_sizes (length sel) r1 r2 = (a, b, c)" "0 \<le> a" "0 \<le> b"
  shows "split_selected sel r1 r2 =
           (map snd (take (nat a) sel), map snd (take (nat b) (drop (nat a) sel)),
            map snd (drop (nat a + nat b) sel))"
  using assms
  by (simp add: split_selected_def Let_def py_slice_prefix py_slice_middle py_slice_suffix)

lemma three_parts: "take a xs @ take b (drop a xs) @ drop (a + b) xs = xs"
  by (metis append_take_drop_id drop_drop add.commute)

lemma split_sizes_100: "split_sizes 100 double_0_7 double_0_15 = (70, 15, 15)"
  by (simp add: split_sizes_def py_int_def int_times_double_def round_to_double_def
      double_0_7_def double_0_15_def bit_length.simps Let_def)

lemma split_sizes_2: "split_sizes 2 double_0_7 double_0_15 = (0, 1, 1)"
  by (simp add: split_sizes_def py_int_def int_times_double_def round_to_double_def
      double_0_7_def double_0_15_def bit_length.simps Let_def)

lemma dvd_10_7: "(7 * (n::nat) mod 10 = 0) \<longleftrightarrow> 10 dvd n"
proof -
  have "10 dvd n" if a: "10 dvd 7 * n"
  proof -
    from a have "10 dvd 3 * (7 * n)" by (rule dvd_mult)
    moreover have "(10::nat) dvd 20 * n" by (rule dvd_mult2) simp
    ultimately have "10 dvd 3 * (7 * n) - 20 * n" by (rule dvd_diff_nat)
    moreover have "3 * (7 * n) - 20 * n = n" by simp
    ultimately show ?thesis by simp
  qed
  moreover have "10 dvd 7 * n" if "10 dvd n" using that by (rule dvd_mult)
  ultimately show ?thesis unfolding mod_eq_0_iff_dvd by blast
qed

lemma div_15_100: "15 * (n::nat) div 100 = 3 * n div 20"
proof -
  have "15 * n div 100 = (5 * (3 * n)) div (5 * 20)" by simp
  also have "\<dots> = 3 * n div 20" by (rule div_mult_mult1) simp
  finally show ?thesis .
qed

lemma dvd_20_3: "(3 * (n::nat) mod 20 = 0) \<longleftrightarrow> 20 dvd n"
proof -
  have "20 dvd n" if a: "20 dvd 3 * n"
  proof -
    from a have "20 dvd 7 * (3 * n)" by (rule dvd_mult)
    moreover have "(20::nat) dvd 20 * n" by simp
    ultimately have "20 dvd 7 * (3 * n) - 20 * n" by (rule dvd_diff_nat)
    moreover have "7 * (3 * n) - 20 * n = n" by simp
    ultimately show ?thesis by simp
  qed
  moreover have "20 dvd 3 * n" if "20 dvd n" using that by (rule dvd_mult)
  ultimately show ?thesis unfolding mod_eq_0_iff_dvd by blast
qed

lemma round_to_double_upper: "round_to_double N \<le> N + 2 ^ (bit_length N - 53)"
proof -
  define P :: nat where "P = 2 ^ (bit_length N - 53)"
  define q where "q = N div P"
  have a: "q * P \<le> N" unfolding q_def by simp
  have b: "round_to_double N \<le> (q + 1) * P"
    by (simp add: round_to_double_def Let_def q_def P_def)
  have c: "(q + 1) * P = q * P + P" by (simp add: algebra_simps)
  from a b c have "round_to_double N \<le> N + P" by linarith
  then show ?thesis unfolding P_def .
qed

lemma py_int_times_le:
  assumes "n < 2 ^ 53" "n * mant d < 2 ^ (53 + e)" "n * mant d + 2 ^ e < (K + 1) * 2 ^ nexp d"
  shows "py_int (int_times_double n d) \<le> K"
proof -
  let ?N = "n * mant d"
  from bit_length_le[OF assms(2)] have "bit_length ?N - 53 \<le> e" by simp
  then have "(2::nat) ^ (bit_length ?N - 53) \<le> 2 ^ e" by simp
  with round_to_double_upper[of ?N] have "round_to_double ?N \<le> ?N + 2 ^ e" by linarith
  with assms(3) have "round_to_double ?N < (K + 1) * 2 ^ nexp d" by linarith
  then have "round_to_double ?N div 2 ^ nexp d < K + 1"
    by (simp add: less_mult_imp_div_less)
  then show ?thesis
    using round_to_double_exact[OF assms(1)] by (simp add: py_int_def int_times_double_def)
qed

text \<open>
  The double product \<open>n * 0.7\<close>, truncated, is \<open>7 n div 10\<close>, or one less when \<open>n\<close> is a
  multiple of 10: the double \<open>0.7\<close> lies below \<open>7 / 10\<close>.
\<close>

lemma n_train_value:
  assumes "n < 2 ^ 49"
  defines "t \<equiv> py_int (int_times_double n double_0_7)"
  shows "t = 7 * n div 10 \<or> (10 dvd n \<and> t + 1 = 7 * n div 10)"
proof -
  define F where "F = 7 * n div 10"
  define k where "k = 7 * n mod 10"
  have dec: "7 * n = 10 * F + k" "k < 10" unfolding F_def k_def by simp_all
  have m: "mant double_0_7 = 3152519739159347" "nexp double_0_7 = 52"
    by (simp_all add: double_0_7_def)
  have p: "(2::nat) ^ 52 = 4503599627370496" "(2::nat) ^ 48 = 281474976710656"
    "(2::nat) ^ (53 + 48) = 2535301200456458802993406410752" by simp_all
  have n53: "n < 2 ^ 53" using assms(1) by simp
  have n49: "n < 562949953421312" using assms(1) by simp
  have "10 * (n * 3152519739159347) + 2 * n = (7 * n) * 4503599627370496" by simp
  also have "\<dots> = 10 * (F * 4503599627370496) + k * 4503599627370496"
    unfolding dec(1) by (simp add: algebra_simps)
  finally have e: "10 * (n * 3152519739159347) + 2 * n
      = 10 * (F * 4503599627370496) + k * 4503599627370496" .
  have F52: "F \<le> 4503599627370496" using dec(1) n49 by simp
  have up: "t \<le> F" unfolding t_def
  proof (rule py_int_times_le[OF n53, where e = 48])
    have "n * 3152519739159347 \<le> 562949953421312 * 3152519739159347"
      using n49 by (intro mult_le_mono) simp_all
    then show "n * mant double_0_7 < 2 ^ (53 + 48)" unfolding m p by simp
    have "k * 4503599627370496 \<le> 9 * 4503599627370496" using dec(2) by simp
    with e have "n * 3152519739159347 + 281474976710656 < (F + 1) * 4503599627370496" by simp
    then show "n * mant double_0_7 + 2 ^ 48 < (F + 1) * 2 ^ nexp double_0_7"
      unfolding m p .
  qed
  have low1: "F - 1 \<le> t" unfolding t_def
  proof (rule py_int_times_ge[OF n53])
    have "(F - 1) * 4503599627370496 \<le> n * 3152519739159347"
    proof (cases F)
      case 0
      then show ?thesis by simp
    next
      case (Suc f)
      with e n49 show ?thesis by simp
    qed
    then show "(F - 1) * 2 ^ nexp double_0_7 \<le> n * mant double_0_7" unfolding m p .
    show "F - 1 \<le> 2 ^ 52" unfolding p using F52 by simp
  qed
  have low: "F \<le> t" if "0 < k" unfolding t_def
  proof (rule py_int_times_ge[OF n53])
    have "4503599627370496 \<le> k * 4503599627370496" using that by simp
    with e n49 have "F * 4503599627370496 \<le> n * 3152519739159347" by simp
    then show "F * 2 ^ nexp double_0_7 \<le> n * mant double_0_7" unfolding m p .
    show "F \<le> 2 ^ 52" unfolding p using F52 .
  qed
  have dv: "k = 0 \<longleftrightarrow> 10 dvd n" unfolding k_def by (rule dvd_10_7)
  show ?thesis
  proof (cases "k = 0")
    case True
    with dv up low1 show ?thesis unfolding F_def[symmetric] by auto
  next
    case False
    with low up show ?thesis unfolding F_def[symmetric] by auto
  qed
qed

lemma n_val_value:
  assumes "n < 2 ^ 49"
  defines "v \<equiv> py_int (int_times_double n double_0_15)"
  shows "v = 15 * n div 100 \<or> (20 dvd n \<and> v + 1 = 15 * n div 100)"
proof -
  define V where "V = 3 * n div 20"
  define k where "k = 3 * n mod 20"
  have dec: "3 * n = 20 * V + k" "k < 20" unfolding V_def k_def by simp_all
  have V': "15 * n div 100 = V" unfolding V_def by (rule div_15_100)
  have m: "mant double_0_15 = 5404319552844595" "nexp double_0_15 = 55"
    by (simp_all add: double_0_15_def)
  have p: "(2::nat) ^ 55 = 36028797018963968" "(2::nat) ^ 49 = 562949953421312"
    "(2::nat) ^ 52 = 4503599627370496"
    "(2::nat) ^ (53 + 49) = 5070602400912917605986812821504" by simp_all
  have n53: "n < 2 ^ 53" using assms(1) by simp
  have n49: "n < 562949953421312" using assms(1) by simp
  have "20 * (n * 5404319552844595) + 4 * n = (3 * n) * 36028797018963968" by simp
  also have "\<dots> = 20 * (V * 36028797018963968) + k * 36028797018963968"
    unfolding dec(1) by (simp add: algebra_simps)
  finally have e: "20 * (n * 5404319552844595) + 4 * n
      = 20 * (V * 36028797018963968) + k * 36028797018963968" .
  have V52: "V \<le> 4503599627370496" using dec(1) n49 by simp
  have up: "v \<le> V" unfolding v_def
  proof (rule py_int_times_le[OF n53, where e = 49])
    have "n * 5404319552844595 \<le> 562949953421312 * 5404319552844595"
      using n49 by (intro mult_le_mono) simp_all
    then show "n * mant double_0_15 < 2 ^ (53 + 49)" unfolding m p by simp
    have "k * 36028797018963968 \<le> 19 * 36028797018963968" using dec(2) by simp
    with e have "n * 5404319552844595 + 562949953421312 < (V + 1) * 36028797018963968" by simp
    then show "n * mant double_0_15 + 2 ^ 49 < (V + 1) * 2 ^ nexp double_0_15"
      unfolding m p .
  qed
  have low1: "V - 1 \<le> v" unfolding v_def
  proof (rule py_int_times_ge[OF n53])
    have "(V - 1) * 36028797018963968 \<le> n * 5404319552844595"
    proof (cases V)
      case 0
      then show ?thesis by simp
    next
      case (Suc f)
      with e n49 show ?thesis by simp
    qed
    then show "(V - 1) * 2 ^ nexp double_0_15 \<le> n * mant double_0_15" unfolding m p .
    show "V - 1 \<le> 2 ^ 52" unfolding p using V52 by simp
  qed
  have low: "V \<le> v" if "0 < k" unfolding v_def
  proof (rule py_int_times_ge[OF n53])
    have "36028797018963968 \<le> k * 36028797018963968" using that by simp
    with e n49 have "V * 36028797018963968 \<le> n * 5404319552844595" by simp
    then show "V * 2 ^ nexp double_0_15 \<le> n * mant double_0_15" unfolding m p .
    show "V \<le> 2 ^ 52" unfolding p using V52 .
  qed
  have dv: "k = 0 \<longleftrightarrow> 20 dvd n" unfolding k_def by (rule dvd_20_3)
  show ?thesis
  proof (cases "k = 0")
    case True
    with dv up low1 show ?thesis unfolding V' by auto
  next
    case False
    with low up show ?thesis unfolding V' by auto
  qed
qed

lemma split_sizes_rule:
  "split_sizes n r1 r2 =
     spec_corrective n (int (py_int (int_times_double n r1))) (int (py_int (int_times_double n r2)))"
  unfolding split_sizes_def spec_corrective_def Let_def by simp

lemma split_sizes_sum:
  assumes "split_sizes n r1 r2 = (a, b, c)"
  shows "a + b + c = int n"
  using assms by (auto simp: split_sizes_def Let_def split: if_splits)

lemma split_sizes_test_nonneg:
  assumes "n < 2 ^ 49" "split_sizes n double_0_7 double_0_15 = (a, b, c)"
  shows "0 \<le> c"
proof -
  define t where "t = py_int (int_times_double n double_0_7)"
  define v where "v = py_int (int_times_double n double_0_15)"
  define F where "F = 7 * n div 10"
  define V where "V = 15 * n div 100"
  from n_train_value[OF assms(1)] have t: "t \<le> F" unfolding t_def F_def by auto
  from n_val_value[OF assms(1)] have v: "v \<le> V" unfolding v_def V_def by auto
  have "10 * F \<le> 7 * n" "100 * V \<le> 15 * n" unfolding F_def V_def by simp_all
  with t v have tv: "int t + int v \<le> int n" by linarith
  from assms(2) have
    "c = (if int n - int t - int v = 0 \<and> 3 \<le> n then 1 else int n - int t - int v)"
    unfolding split_sizes_def Let_def t_def[symmetric] v_def[symmetric]
    by (auto split: if_splits)
  with tv show ?thesis by (auto split: if_splits)
qed

lemma split_selected_lengths:
  assumes "split_sizes (length sel) r1 r2 = (a, b, c)" "0 \<le> a" "0 \<le> b" "0 \<le> c"
  shows "length (map snd (take (nat a) sel)) = nat a \<and>
         length (map snd (take (nat b) (drop (nat a) sel))) = nat b \<and>
         length (map snd (drop (nat a + nat b) sel)) = nat c"
proof -
  from split_sizes_sum[OF assms(1)] have "a + b + c = int (length sel)" .
  with assms(2-4) show ?thesis by (auto simp: min_def)
qed

text \<open>
  Claim C8, amended. For the ratios 0.7 and 0.15 and every list of \<open>n\<close> selected patches:

  \<^item> for \<open>n < 2 ^ 53\<close> (a length a double holds exactly) the train, val and test lists are
    consecutive pieces of the list: together, in this order, they are the list, so their
    lengths sum to \<open>n\<close>; for 100 patches the sizes are 70, 15 and 15, for 2 patches 0, 1 and 1;

  \<^item> for \<open>n < 2 ^ 49\<close> the three lengths are what the rule of the specification gives from
    \<open>n_train = int(n * 0.7)\<close> and \<open>n_val = int(n * 0.15)\<close>: \<open>n_test = n - n_train - n_val\<close>,
    then the two corrective moves in order. The two products are products of doubles, so
    \<open>int(n * 0.7)\<close> is \<open>floor(7 n / 10)\<close>, or one less when \<open>n\<close> is a multiple of 10, and
    \<open>int(n * 0.15)\<close> is \<open>floor(15 n / 100)\<close>, or one less when \<open>n\<close> is a multiple of 20. When
    \<open>n\<close> is no multiple of 10 the lengths are exactly those of the rule with the exact floors.
\<close>

theorem split_sizes_follow_rule:
  "case split_selected selected double_0_7 double_0_15 of
     (train, val, test) \<Rightarrow>
       (length selected < 2 ^ 53 \<longrightarrow>
          train @ val @ test = map snd selected \<and>
          length train + length val + length test = length selected \<and>
          (length selected = 100 \<longrightarrow> length train = 70 \<and> length val = 15 \<and> length test = 15) \<and>
          (length selected = 2 \<longrightarrow> length train = 0 \<and> length val = 1 \<and> length test = 1)) \<and>
       (length selected < 2 ^ 49 \<longrightarrow>
          (let n = length selected;
               t = py_int (int_times_double n double_0_7);
               v = py_int (int_times_double n double_0_15)
           in (t = 7 * n div 10 \<or> (10 dvd n \<and> t + 1 = 7 * n div 10)) \<and>
              (v = 15 * n div 100 \<or> (20 dvd n \<and> v + 1 = 15 * n div 100)) \<and>
              (int (length train), int (length val), int (length test)) =
                spec_corrective n (int t) (int v) \<and>
              (\<not> 10 dvd n \<longrightarrow>
                 (int (length train), int (length val), int (length test)) = spec_split_sizes n)))"
proof -
  define n where "n = length selected"
  define t where "t = py_int (int_times_double n double_0_7)"
  define v where "v = py_int (int_times_double n double_0_15)"
  obtain a b c where abc: "split_sizes (length selected) double_0_7 double_0_15 = (a, b, c)"
    by (cases "split_sizes (length selected) double_0_7 double_0_15") auto
  let ?tr = "map snd (take (nat a) selected)"
  let ?va = "map snd (take (nat b) (drop (nat a) selected))"
  let ?te = "map snd (drop (nat a + nat b) selected)"
  have first: "?tr @ ?va @ ?te = map snd selected \<and>
      length ?tr + length ?va + length ?te = length selected \<and>
      (length selected = 100 \<longrightarrow> length ?tr = 70 \<and> length ?va = 15 \<and> length ?te = 15) \<and>
      (length selected = 2 \<longrightarrow> length ?tr = 0 \<and> length ?va = 1 \<and> length ?te = 1)"
  proof -
    have whole: "?tr @ ?va @ ?te = map snd selected"
      by (simp only: map_append[symmetric] three_parts)
    have "length (take (nat a) selected) + length (take (nat b) (drop (nat a) selected)) +
        length (drop (nat a + nat b) selected) = length selected"
      using arg_cong[OF three_parts[of "nat a" selected "nat b"], of length]
      by (simp only: length_append add.assoc)
    then have lens: "length ?tr + length ?va + length ?te = length selected"
      by (simp only: length_map)
    have c100: "length ?tr = 70 \<and> length ?va = 15 \<and> length ?te = 15" if "length selected = 100"
    proof -
      from abc that have "a = 70" "b = 15" by (simp_all add: split_sizes_100)
      with that show ?thesis by simp
    qed
    have c2: "length ?tr = 0 \<and> length ?va = 1 \<and> length ?te = 1" if "length selected = 2"
    proof -
      from abc that have "a = 0" "b = 1" by (simp_all add: split_sizes_2)
      with that show ?thesis by simp
    qed
    from whole lens c100 c2 show ?thesis by blast
  qed
  have second: "(t = 7 * n div 10 \<or> (10 dvd n \<and> t + 1 = 7 * n div 10)) \<and>
      (v = 15 * n div 100 \<or> (20 dvd n \<and> v + 1 = 15 * n div 100)) \<and>
      (int (length ?tr), int (length ?va), int (length ?te)) = spec_corrective n (int t) (int v) \<and>
      (\<not> 10 dvd n \<longrightarrow> (int (length ?tr), int (length ?va), int (length ?te)) = spec_split_sizes n)"
    if small: "length selected < 2 ^ 49"
  proof -
    have n49: "n < 2 ^ 49" and n53: "length selected < 2 ^ 53" using small unfolding n_def by simp_all
    from n_train_value[OF n49] have tv: "t = 7 * n div 10 \<or> (10 dvd n \<and> t + 1 = 7 * n div 10)"
      unfolding t_def .
    from n_val_value[OF n49] have vv: "v = 15 * n div 100 \<or> (20 dvd n \<and> v + 1 = 15 * n div 100)"
      unfolding v_def .
    from split_sizes_nonneg[OF n53 abc] have nn: "0 \<le> a" "0 \<le> b" by auto
    from split_sizes_test_nonneg[OF small abc] have cn: "0 \<le> c" .
    from split_selected_lengths[OF abc nn cn] nn cn
    have "(int (length ?tr), int (length ?va), int (length ?te)) = (a, b, c)" by simp
    also have "\<dots> = spec_corrective n (int t) (int v)"
      using abc unfolding split_sizes_rule n_def t_def v_def by simp
    finally have len: "(int (length ?tr), int (length ?va), int (length ?te))
        = spec_corrective n (int t) (int v)" .
    have exact: "(int (length ?tr), int (length ?va), int (length ?te)) = spec_split_sizes n"
      if nd: "\<not> 10 dvd n"
    proof -
      have "\<not> 20 dvd n"
      proof
        assume "20 dvd n"
        moreover have "(10::nat) dvd 20" by simp
        ultimately have "10 dvd n" by (rule dvd_trans[rotated])
        with nd show False ..
      qed
      with tv vv nd have "t = 7 * n div 10" "v = 15 * n div 100" by auto
      with len show ?thesis unfolding spec_split_sizes_def by simp
    qed
    from tv vv len exact show ?thesis by blast
  qed
  from split_sizes_nonneg[of "length selected" a b c] abc
  have parts: "length selected < 2 ^ 53 \<Longrightarrow> split_selected selected double_0_7 double_0_15 = (?tr, ?va, ?te)"
    by (intro split_selected_parts[OF abc]) auto
  show ?thesis
  proof (cases "length selected < 2 ^ 53")
    case True
    have s49: "length selected < 2 ^ 49 \<Longrightarrow>
      (let n = length selected;
           t = py_int (int_times_double n double_0_7);
           v = py_int (int_times_double n double_0_15)
       in (t = 7 * n div 10 \<or> (10 dvd n \<and> t + 1 = 7 * n div 10)) \<and>
          (v = 15 * n div 100 \<or> (20 dvd n \<and> v + 1 = 15 * n div 100)) \<and>
          (int (length ?tr), int (length ?va), int (length ?te)) = spec_corrective n (int t) (int v) \<and>
          (\<not> 10 dvd n \<longrightarrow> (int (length ?tr), int (length ?va), int (length ?te)) = spec_split_sizes n))"
      using second unfolding Let_def n_def t_def v_def by blast
    show ?thesis unfolding parts[OF True] prod.case using first s49 by blast
  next
    case False
    then have "\<not> length selected < 2 ^ 49" by simp
    with False show ?thesis by (cases "split_selected selected double_0_7 double_0_15") simp
  qed
qed

theorem split_sizes_follow_rule_witness:
  "split_selected [(50176, 3, 4), (40000, 0, 1)] double_0_7 double_0_15 = ([], [(3, 4)], [(0, 1)]) \<and>
   spec_split_sizes 2 = (0, 1, 1)"
proof -
  let ?sel = "[(50176, 3, 4), (40000, 0, 1)] :: (int \<times> nat \<times> nat) list"
  have l: "length ?sel < 2 ^ 53" "length ?sel = 2" "length ?sel < 2 ^ 49" by simp_all
  have "\<not> 10 dvd (2::nat)" by simp
  then have nd: "\<not> 10 dvd length ?sel" unfolding l(2) .
  obtain train val test where s: "split_selected ?sel double_0_7 double_0_15 = (train, val, test)"
    by (cases "split_selected ?sel double_0_7 double_0_15") auto
  note rule = split_sizes_follow_rule[of ?sel, unfolded s prod.case Let_def]
  note part = rule[THEN conjunct1, THEN mp, OF l(1)]
  note sizes = rule[THEN conjunct2, THEN mp, OF l(3)]
  note two = part[THEN conjunct2, THEN conjunct2, THEN conjunct2, THEN mp, OF l(2)]
  note exact = sizes[THEN conjunct2, THEN conjunct2, THEN conjunct2, THEN mp, OF nd]
  from part have whole: "train @ val @ test = map snd ?sel" by (rule conjunct1)
  from two have t: "train = []" by simp
  from two obtain v where v: "val = [v]" by (cases val) auto
  from two obtain w where w: "test = [w]" by (cases test) auto
  from whole t v w have "v = (3, 4)" "w = (0, 1)" by simp_all
  with s t v w have a: "split_selected ?sel double_0_7 double_0_15 = ([], [(3, 4)], [(0, 1)])"
    by simp
  from exact have "spec_split_sizes 2 = (int (length train), int (length val), int (length test))"
    unfolding l(2) by (rule sym)
  with t v w have b: "spec_split_sizes 2 = (0, 1, 1)" by simp
  from a b show ?thesis by (rule conjI)
qed

text \<open>
  With the exact floors of the specification a class of 90 selected patches would be split
  into 63, 13 and 14. The code splits it into 62, 13 and 15: \<open>90 * 0.7\<close> is a double just
  below 63.
\<close>

theorem split_sizes_90_counterexample:
  "spec_split_sizes 90 = (63, 13, 14) \<and>
   split_sizes 90 double_0_7 double_0_15 = (62, 13, 15) \<and>
   (case split_selected (replicate 90 (0, 0, 0)) double_0_7 double_0_15 of
      (train, val, test) \<Rightarrow> (length train, length val, length test)) = (62, 13, 15)"
proof -
  have a: "spec_split_sizes 90 = (63, 13, 14)"
    by (simp add: spec_split_sizes_def spec_corrective_def)
  have b: "split_sizes 90 double_0_7 double_0_15 = (62, 13, 15)"
    by (simp add: split_sizes_def py_int_def int_times_double_def round_to_double_def
        double_0_7_def double_0_15_def bit_length.simps Let_def)
  have "split_sizes (length (replicate 90 (0::int, 0::nat, 0::nat))) double_0_7 double_0_15 = (62, 13, 15)"
    using b by simp
  from split_selected_parts[OF this]
  have c: "(case split_selected (replicate 90 (0, 0, 0)) double_0_7 double_0_15 of
      (train, val, test) \<Rightarrow> (length train, length val, length test)) = (62, 13, 15)"
    by simp
  from a b c show ?thesis by simp
qed

section \<open>Proofs: abundance maps\<close>

lemma scan_constant_raster:
  assumes "0 < nrows a" "0 < ncols a" "\<And>y x. px a y x = c" "c \<noteq> background"
  shows "scan_filtered_classes a = [c]"
proof -
  let ?vals = "concat (map (\<lambda>y. map (\<lambda>x. px a y x) [0..<ncols a]) [0..<nrows a])"
  have "set ?vals = {c}" using assms(1-3) by auto
  then have "set (filter (\<lambda>v. v \<noteq> background) ?vals) = {c}" using assms(4) by auto
  then have "set (sort (remdups (filter (\<lambda>v. v \<noteq> background) ?vals))) = set [c]" by simp
  moreover have "distinct (sort (remdups (filter (\<lambda>v. v \<noteq> background) ?vals)))" by simp
  moreover have "sorted (sort (remdups (filter (\<lambda>v. v \<noteq> background) ?vals)))" by simp
  ultimately have "sort (remdups (filter (\<lambda>v. v \<noteq> background) ?vals)) = [c]"
    by (intro sorted_distinct_set_unique) auto
  then show ?thesis by (simp add: scan_filtered_classes_def)
qed

lemma count_cells_everywhere:
  "(\<And>y x. P y x) \<Longrightarrow> count_cells P y0 y1 x0 x1 = (y1 - y0) * (x1 - x0)"
  by (rule count_cells_all)

lemma strip_cell_9:
  "abundance_cell (ReadAsArray strip_raster 0 0 224 2048) 0 224 204 0 0 9 0 = 47488"
  by (simp add: abundance_cell_def Let_def ReadAsArray_def strip_raster_def count_cells_everywhere)


lemma strip_class_abundance:
  "map_sum id (\<lambda>full. px full 9 0) (class_abundance strip_raster 0 224 204 2048 10 1) = Inr 47488"
proof -
  have dims: "nrows strip_raster = 2060" "ncols strip_raster = 224"
    by (simp_all add: strip_raster_def)
  have l: "[0..<2] = [0, Suc 0]" "[0..<1] = [0]" by (simp_all add: upt_rec)
  show ?thesis
    by (simp add: class_abundance_def abundance_batch_def calculate_abundance_batch_numba_def
        add_batch_abundance_def Let_def ceil_div_def shape_ReadAsArray dims l strip_cell_9)
qed


text \<open>
  Claim C1 fails on the code. With the parameters of the pipeline (window 224, overlap 20,
  batch size 2048) and a raster of 2060 rows and 224 columns that holds class 0 everywhere,
  the window of grid cell \<open>(9, 0)\<close> covers rows 1836 to 2059 and holds \<open>224 * 224 = 50176\<close>
  pixels of class 0, but the cell is written as \<open>212 * 224 = 47488\<close>: the second batch
  starts at row 2048 and computes the cells from \<open>2048 div 204 = 10\<close> on, so the twelve rows
  of the window that lie in it are never counted.
\<close>

theorem abundance_misses_window_of_earlier_batch:
  "map_sum id (\<lambda>r. map (\<lambda>f. (fst f, px (snd f) 9 0)) (fst r))
     (create_abundance_maps_batched strip_raster (\<lambda>c. False) 224 20 2048) = Inr [(0, 47488)] \<and>
   int (count_cells (\<lambda>y x. px strip_raster y x = 0) (9 * 204) (9 * 204 + 224) (0 * 204) (0 * 204 + 224))
     = 50176"
proof
  have dims: "nrows strip_raster = 2060" "ncols strip_raster = 224"
    by (simp_all add: strip_raster_def)
  have classes: "scan_filtered_classes strip_raster = [0]"
    by (rule scan_constant_raster) (simp_all add: strip_raster_def background_def)
  obtain full where full: "class_abundance strip_raster 0 224 204 2048 10 1 = Inr full"
    and cell: "px full 9 0 = 47488"
    using strip_class_abundance
    by (cases "class_abundance strip_raster 0 224 204 2048 10 1") auto
  show "map_sum id (\<lambda>r. map (\<lambda>f. (fst f, px (snd f) 9 0)) (fst r))
     (create_abundance_maps_batched strip_raster (\<lambda>c. False) 224 20 2048) = Inr [(0, 47488)]"
    using full cell by (simp add: create_abundance_maps_batched_def Let_def dims classes)
  show "int (count_cells (\<lambda>y x. px strip_raster y x = 0) (9 * 204) (9 * 204 + 224) (0 * 204) (0 * 204 + 224))
     = 50176"
    by (simp add: strip_raster_def count_cells_everywhere)
qed

section \<open>Proofs: band stacking\<close>

lemma collect_bands_parts:
  "collect_bands fs input_dir tag bands =
     (filter (\<lambda>f. f \<in> fs) (map (\<lambda>band. os_path_join input_dir (clipped_name tag band)) bands),
      missing_in fs input_dir tag bands,
      snd (snd (collect_bands fs input_dir tag bands)))"
  by (induction bands) (auto simp: missing_in_def Let_def split: prod.splits)

lemma missing_in_empty:
  "missing_in fs input_dir tag bands = [] \<longleftrightarrow>
     (\<forall>band \<in> set bands. os_path_join input_dir (clipped_name tag band) \<in> fs)"
  by (auto simp: missing_in_def filter_empty_conv)

lemma stack_bands_missing:
  assumes "missing_in fs input_dir tag bands \<noteq> []"
  shows "\<exists>out. stack_bands do_stack tag bands expected sensor input_dir fs =
           (False, fs, out @ [Error_missing (length (missing_in fs input_dir tag bands))
                                (missing_in fs input_dir tag bands), Please_clip])"
proof -
  obtain bf ms out where c: "collect_bands fs input_dir tag bands = (bf, ms, out)"
    by (cases "collect_bands fs input_dir tag bands") auto
  with collect_bands_parts[of fs input_dir tag bands] have ms: "ms = missing_in fs input_dir tag bands"
    by simp
  with assms c show ?thesis
    by (auto simp: stack_bands_def Let_def intro: exI[of _ "Banner sensor (length bands) # out"])
qed

lemma stack_bands_complete:
  assumes "missing_in fs input_dir tag bands = []" "length bands = expected"
  shows "\<exists>out. stack_bands do_stack tag bands expected sensor input_dir fs =
           (fst (do_stack fs (map (\<lambda>band. os_path_join input_dir (clipped_name tag band)) bands)),
            fst (snd (do_stack fs (map (\<lambda>band. os_path_join input_dir (clipped_name tag band)) bands))),
            out)"
proof -
  let ?files = "map (\<lambda>band. os_path_join input_dir (clipped_name tag band)) bands"
  obtain bf ms out where c: "collect_bands fs input_dir tag bands = (bf, ms, out)"
    by (cases "collect_bands fs input_dir tag bands") auto
  with collect_bands_parts[of fs input_dir tag bands]
  have ms: "ms = []" and bf: "bf = filter (\<lambda>f. f \<in> fs) ?files"
    using assms(1) by simp_all
  from assms(1) have "\<forall>f \<in> set ?files. f \<in> fs" by (auto simp: missing_in_empty)
  then have "filter (\<lambda>f. f \<in> fs) ?files = ?files" by (simp add: filter_id_conv)
  with bf have bf': "bf = ?files" by simp
  obtain ok fs' out' where d: "do_stack fs ?files = (ok, fs', out')"
    by (cases "do_stack fs ?files") auto
  show ?thesis
    using c ms bf' d assms(2) by (simp add: stack_bands_def Let_def)
qed

text \<open>
  Claim C9. Both stacking functions look for every expected band file (6 for Landsat-8, 10
  for Sentinel-2) before anything is stacked. When a band file is missing, the function
  returns \<open>False\<close>, the file system is as it was (no stacked file, no temporary VRT), and the
  last lines printed are the error that counts and lists the missing bands, in band order,
  and the request to clip them. When no band file is missing, the stacking block runs on the
  band files in band order.
\<close>

theorem stacking_aborts_on_missing_band:
  "length landsat_bands = 6 \<and> length sentinel_bands = 10 \<and>
   (missing_in fs input_dir ''L8'' landsat_bands \<noteq> [] \<longrightarrow>
      (\<exists>out. stack_landsat_bands do_stack input_dir fs =
         (False, fs, out @ [Error_missing (length (missing_in fs input_dir ''L8'' landsat_bands))
                              (missing_in fs input_dir ''L8'' landsat_bands), Please_clip]))) \<and>
   (missing_in fs input_dir ''S2'' sentinel_bands \<noteq> [] \<longrightarrow>
      (\<exists>out. stack_sentinel2_bands do_stack input_dir fs =
         (False, fs, out @ [Error_missing (length (missing_in fs input_dir ''S2'' sentinel_bands))
                              (missing_in fs input_dir ''S2'' sentinel_bands), Please_clip]))) \<and>
   (missing_in fs input_dir ''L8'' landsat_bands = [] \<longrightarrow>
      (\<exists>out. stack_landsat_bands do_stack input_dir fs =
         (fst (do_stack fs (map (\<lambda>band. os_path_join input_dir (clipped_name ''L8'' band)) landsat_bands)),
          fst (snd (do_stack fs (map (\<lambda>band. os_path_join input_dir (clipped_name ''L8'' band)) landsat_bands))),
          out))) \<and>
   (missing_in fs input_dir ''S2'' sentinel_bands = [] \<longrightarrow>
      (\<exists>out. stack_sentinel2_bands do_stack input_dir fs =
         (fst (do_stack fs (map (\<lambda>band. os_path_join input_dir (clipped_name ''S2'' band)) sentinel_bands)),
          fst (snd (do_stack fs (map (\<lambda>band. os_path_join input_dir (clipped_name ''S2'' band)) sentinel_bands))),
          out)))"
proof (intro conjI impI)
  show "length landsat_bands = 6" by (simp add: landsat_bands_def)
  show "length sentinel_bands = 10" by (simp add: sentinel_bands_def)
next
  assume "missing_in fs input_dir ''L8'' landsat_bands \<noteq> []"
  then show "\<exists>out. stack_landsat_bands do_stack input_dir fs =
         (False, fs, out @ [Error_missing (length (missing_in fs input_dir ''L8'' landsat_bands))
                              (missing_in fs input_dir ''L8'' landsat_bands), Please_clip])"
    unfolding stack_landsat_bands_def by (rule stack_bands_missing)
next
  assume "missing_in fs input_dir ''S2'' sentinel_bands \<noteq> []"
  then show "\<exists>out. stack_sentinel2_bands do_stack input_dir fs =
         (False, fs, out @ [Error_missing (length (missing_in fs input_dir ''S2'' sentinel_bands))
                              (missing_in fs input_dir ''S2'' sentinel_bands), Please_clip])"
    unfolding stack_sentinel2_bands_def by (rule stack_bands_missing)
next
  assume "missing_in fs input_dir ''L8'' landsat_bands = []"
  then show "\<exists>out. stack_landsat_bands do_stack input_dir fs =
         (fst (do_stack fs (map (\<lambda>band. os_path_join input_dir (clipped_name ''L8'' band)) landsat_bands)),
          fst (snd (do_stack fs (map (\<lambda>band. os_path_join input_dir (clipped_name ''L8'' band)) landsat_bands))),
          out)"
    unfolding stack_landsat_bands_def
    by (rule stack_bands_complete) (simp add: landsat_bands_def)
next
  assume "missing_in fs input_dir ''S2'' sentinel_bands = []"
  then show "\<exists>out. stack_sentinel2_bands do_stack input_dir fs =
         (fst (do_stack fs (map (\<lambda>band. os_path_join input_dir (clipped_name ''S2'' band)) sentinel_bands)),
          fst (snd (do_stack fs (map (\<lambda>band. os_path_join input_dir (clipped_name ''S2'' band)) sentinel_bands))),
          out)"
    unfolding stack_sentinel2_bands_def
    by (rule stack_bands_complete) (simp add: sentinel_bands_def)
qed


theorem stacking_aborts_on_missing_band_witness:
  "(\<exists>out. stack_landsat_bands example_do_stack ''in'' fs_without_B5 =
      (False, fs_without_B5, out @ [Error_missing 1 [''SR_B5''], Please_clip])) \<and>
   (\<exists>out. stack_sentinel2_bands example_do_stack ''in'' fs_without_B5 =
      (False, fs_without_B5, out @ [Error_missing 10 sentinel_bands, Please_clip])) \<and>
   (\<exists>out. stack_landsat_bands example_do_stack ''in'' fs_complete =
      (True, insert ''stacked.tif'' fs_complete, out)) \<and>
   (\<exists>out. stack_sentinel2_bands example_do_stack ''in'' fs_complete =
      (True, insert ''stacked.tif'' fs_complete, out))"
proof -
  have m1: "missing_in fs_without_B5 ''in'' ''L8'' landsat_bands = [''SR_B5'']"
    by (simp add: missing_in_def fs_without_B5_def landsat_bands_def os_path_join_def clipped_name_def)
  have m2: "missing_in fs_without_B5 ''in'' ''S2'' sentinel_bands = sentinel_bands"
    by (simp add: missing_in_def fs_without_B5_def sentinel_bands_def os_path_join_def clipped_name_def)
  have m3: "missing_in fs_complete ''in'' ''L8'' landsat_bands = []"
    by (auto simp: missing_in_empty fs_complete_def)
  have m4: "missing_in fs_complete ''in'' ''S2'' sentinel_bands = []"
    by (auto simp: missing_in_empty fs_complete_def)
  have l: "length sentinel_bands = 10" "sentinel_bands \<noteq> []" by (simp_all add: sentinel_bands_def)
  note t1 = stacking_aborts_on_missing_band[of fs_without_B5 "''in''" example_do_stack]
  note t2 = stacking_aborts_on_missing_band[of fs_complete "''in''" example_do_stack]
  have a: "\<exists>out. stack_landsat_bands example_do_stack ''in'' fs_without_B5 =
      (False, fs_without_B5, out @ [Error_missing 1 [''SR_B5''], Please_clip])"
    using t1 m1 by simp
  have b: "\<exists>out. stack_sentinel2_bands example_do_stack ''in'' fs_without_B5 =
      (False, fs_without_B5, out @ [Error_missing 10 sentinel_bands, Please_clip])"
    using t1 m2 l by simp
  have c: "\<exists>out. stack_landsat_bands example_do_stack ''in'' fs_complete =
      (True, insert ''stacked.tif'' fs_complete, out)"
    using t2 m3 by (simp add: example_do_stack_def)
  have d: "\<exists>out. stack_sentinel2_bands example_do_stack ''in'' fs_complete =
      (True, insert ''stacked.tif'' fs_complete, out)"
    using t2 m4 by (simp add: example_do_stack_def)
  from a b c d show ?thesis by blast
qed

section \<open>Proofs: extracting the patches\<close>

text \<open>
  Claim C2, as stated, fails: a sensor whose raster has the size of the ground truth but
  another geotransform is registered (with a warning), and for the location \<open>(0, 1, 2)\<close> its
  image patch gets the origin \<open>(15240, -6120)\<close> while both label patches get
  \<open>(12240, -6120)\<close>, all three read at the pixel offset \<open>(408, 204)\<close>.
\<close>

theorem patch_origin_counterexample:
  "verify_sensor_dimensions exact_arith [(''landsat8'', Some shifted_sensor)] truth_ds
     = ([(''landsat8'', shifted_sensor)], [''landsat8'']) \<and>
   map_sum id (map (\<lambda>p. (folder p, x_offset p, y_offset p, origin (patch_gt p))))
     (extract_patches_for_sensor exact_arith ''landsat8'' shifted_sensor (Some truth_ds) (Some truth_ds)
        [(0, [(1, 2)])] 204)
     = Inr [(''landsat8'', 408, 204, (15240, - 6120))] \<and>
   map_sum id (map (\<lambda>p. (folder p, x_offset p, y_offset p, origin (patch_gt p))))
     (extract_label_patches exact_arith (Some truth_ds) (Some truth_ds) [(0, [(1, 2)])] 204)
     = Inr [(''filtered'', 408, 204, (12240, - 6120)), (''unfiltered'', 408, 204, (12240, - 6120))]"
  by (simp add: verify_sensor_dimensions_def extract_patches_for_sensor_def extract_label_patches_def
      sensor_patch_def label_patch_def patch_geotransform_def origin_def exact_arith_def
      truth_ds_def shifted_sensor_def gt_truth_def gt_shifted_def Let_def)


lemma enumerate_item:
  "(idx, ij) \<in> set (enumerate 0 coords) \<longleftrightarrow> idx < length coords \<and> coords ! idx = ij"
  by (auto simp: in_set_enumerate_eq)

lemma sensor_patch_written:
  assumes "extract_patches_for_sensor ar sensor_name sensor_ds lcf lcu patch_locations stride = Inr imgs"
    and "p \<in> set imgs"
  shows "\<exists>coords i j. (file_class p, coords) \<in> set patch_locations \<and> file_index p < length coords \<and>
           coords ! file_index p = (i, j) \<and> folder p = sensor_name \<and>
           x_offset p = j * stride \<and> y_offset p = i * stride \<and>
           patch_gt p = patch_geotransform ar (ds_gt sensor_ds) (j * stride) (i * stride)"
proof -
  from assms obtain class_id coords item where
    loc: "(class_id, coords) \<in> set patch_locations" and item: "item \<in> set (enumerate 0 coords)"
    and p: "p \<in> set (sensor_patch ar sensor_name sensor_ds stride class_id item)"
    by (auto simp: extract_patches_for_sensor_def split: if_splits)
  obtain idx i j where it: "item = (idx, i, j)" by (cases item) auto
  with item have idx: "idx < length coords" "coords ! idx = (i, j)" by (simp_all add: enumerate_item)
  from p it have "p = \<lparr>folder = sensor_name, file_class = class_id, file_index = idx,
      x_offset = j * stride, y_offset = i * stride,
      patch_gt = patch_geotransform ar (ds_gt sensor_ds) (j * stride) (i * stride)\<rparr>"
    by (simp add: sensor_patch_def Let_def split: if_splits)
  with loc idx show ?thesis by auto
qed

lemma label_patch_written:
  assumes "extract_label_patches ar (Some lc_filtered) (Some lc_unfiltered) patch_locations stride = Inr labels"
    and "q \<in> set labels"
  shows "\<exists>coords i j. (file_class q, coords) \<in> set patch_locations \<and> file_index q < length coords \<and>
           coords ! file_index q = (i, j) \<and>
           x_offset q = j * stride \<and> y_offset q = i * stride \<and>
           patch_gt q = patch_geotransform ar (ds_gt lc_filtered) (j * stride) (i * stride)"
proof -
  from assms obtain class_id coords item where
    loc: "(class_id, coords) \<in> set patch_locations" and item: "item \<in> set (enumerate 0 coords)"
    and q: "q \<in> set (label_patch ar lc_filtered lc_unfiltered stride class_id item)"
    by (auto simp: extract_label_patches_def)
  obtain idx i j where it: "item = (idx, i, j)" by (cases item) auto
  with item have idx: "idx < length coords" "coords ! idx = (i, j)" by (simp_all add: enumerate_item)
  from q it have "file_class q = class_id \<and> file_index q = idx \<and>
      x_offset q = j * stride \<and> y_offset q = i * stride \<and>
      patch_gt q = patch_geotransform ar (ds_gt lc_filtered) (j * stride) (i * stride)"
    by (auto simp: label_patch_def Let_def split: if_splits)
  with loc idx show ?thesis by auto
qed

lemma same_key_same_coords:
  "distinct (map fst locs) \<Longrightarrow> (c, xs) \<in> set locs \<Longrightarrow> (c, ys) \<in> set locs \<Longrightarrow> xs = ys"
  by (meson eq_key_imp_eq_value)

lemma sensor_patch_exists:
  assumes "extract_patches_for_sensor ar sensor_name sensor_ds lcf lcu patch_locations stride = Inr imgs"
    and "(class_id, coords) \<in> set patch_locations" "idx < length coords" "coords ! idx = (i, j)"
    and "ds_readable sensor_ds (j * stride) (i * stride)"
  shows "\<lparr>folder = sensor_name, file_class = class_id, file_index = idx,
           x_offset = j * stride, y_offset = i * stride,
           patch_gt = patch_geotransform ar (ds_gt sensor_ds) (j * stride) (i * stride)\<rparr> \<in> set imgs"
proof -
  from assms(3,4) have "(idx, i, j) \<in> set (enumerate 0 coords)" by (simp add: enumerate_item)
  moreover have "\<lparr>folder = sensor_name, file_class = class_id, file_index = idx,
           x_offset = j * stride, y_offset = i * stride,
           patch_gt = patch_geotransform ar (ds_gt sensor_ds) (j * stride) (i * stride)\<rparr>
         \<in> set (sensor_patch ar sensor_name sensor_ds stride class_id (idx, i, j))"
    using assms(5) by (simp add: sensor_patch_def Let_def)
  ultimately show ?thesis
    using assms(1,2) by (fastforce simp: extract_patches_for_sensor_def split: if_splits)
qed


text \<open>
  Claim C2, amended. For every patch location of a split, the image patch of every sensor
  and both label patches with the file name of that location are read at the same pixel
  offset \<open>x = col_idx * stride\<close>, \<open>y = row_idx * stride\<close>, and the geotransform written
  into each has the origin \<open>(gt[0] + x * gt[1], gt[3] + y * gt[5])\<close> computed from the
  geotransform \<open>gt\<close> of the raster the patch is cut from: the sensor's for an image patch,
  the filtered ground truth's for both label patches. The origins are identical whenever
  these geotransforms are equal. A patch is written for every location whose window can be
  read.
\<close>

theorem patches_share_pixel_offset:
  assumes "distinct (map fst patch_locations)"
    and "extract_patches_for_sensor ar name_a sensor_a lcf lcu patch_locations stride = Inr imgs_a"
    and "extract_patches_for_sensor ar name_b sensor_b lcf lcu patch_locations stride = Inr imgs_b"
    and "extract_label_patches ar (Some lc_filtered) (Some lc_unfiltered) patch_locations stride = Inr labels"
    and "p \<in> set imgs_a" "p' \<in> set imgs_b" "q \<in> set labels"
    and "file_class p' = file_class p" "file_index p' = file_index p"
    and "file_class q = file_class p" "file_index q = file_index p"
  shows "\<exists>coords i j.
           (file_class p, coords) \<in> set patch_locations \<and> file_index p < length coords \<and>
           coords ! file_index p = (i, j) \<and>
           x_offset p = j * stride \<and> y_offset p = i * stride \<and>
           x_offset p' = j * stride \<and> y_offset p' = i * stride \<and>
           x_offset q = j * stride \<and> y_offset q = i * stride \<and>
           origin (patch_gt p) =
             (add ar (g0 (ds_gt sensor_a)) (mul_int ar (int (j * stride)) (g1 (ds_gt sensor_a))),
              add ar (g3 (ds_gt sensor_a)) (mul_int ar (int (i * stride)) (g5 (ds_gt sensor_a)))) \<and>
           origin (patch_gt p') =
             (add ar (g0 (ds_gt sensor_b)) (mul_int ar (int (j * stride)) (g1 (ds_gt sensor_b))),
              add ar (g3 (ds_gt sensor_b)) (mul_int ar (int (i * stride)) (g5 (ds_gt sensor_b)))) \<and>
           origin (patch_gt q) =
             (add ar (g0 (ds_gt lc_filtered)) (mul_int ar (int (j * stride)) (g1 (ds_gt lc_filtered))),
              add ar (g3 (ds_gt lc_filtered)) (mul_int ar (int (i * stride)) (g5 (ds_gt lc_filtered)))) \<and>
           (ds_gt sensor_a = ds_gt lc_filtered \<longrightarrow> origin (patch_gt p) = origin (patch_gt q)) \<and>
           (ds_gt sensor_a = ds_gt sensor_b \<longrightarrow> origin (patch_gt p) = origin (patch_gt p')) \<and>
           (ds_readable sensor_a (j * stride) (i * stride) \<longrightarrow>
              \<lparr>folder = name_a, file_class = file_class p, file_index = file_index p,
                x_offset = j * stride, y_offset = i * stride,
                patch_gt = patch_geotransform ar (ds_gt sensor_a) (j * stride) (i * stride)\<rparr> \<in> set imgs_a)"
proof -
  from sensor_patch_written[OF assms(2,5)] obtain coords i j where
    a: "(file_class p, coords) \<in> set patch_locations" "file_index p < length coords"
       "coords ! file_index p = (i, j)" "x_offset p = j * stride" "y_offset p = i * stride"
       "patch_gt p = patch_geotransform ar (ds_gt sensor_a) (j * stride) (i * stride)"
    by blast
  from sensor_patch_written[OF assms(3,6)] obtain coords' i' j' where
    b: "(file_class p', coords') \<in> set patch_locations" "coords' ! file_index p' = (i', j')"
       "x_offset p' = j' * stride" "y_offset p' = i' * stride"
       "patch_gt p' = patch_geotransform ar (ds_gt sensor_b) (j' * stride) (i' * stride)"
    by blast
  from label_patch_written[OF assms(4,7)] obtain coords'' i'' j'' where
    c: "(file_class q, coords'') \<in> set patch_locations" "coords'' ! file_index q = (i'', j'')"
       "x_offset q = j'' * stride" "y_offset q = i'' * stride"
       "patch_gt q = patch_geotransform ar (ds_gt lc_filtered) (j'' * stride) (i'' * stride)"
    by blast
  have "coords' = coords" using same_key_same_coords[OF assms(1) b(1)] a(1) assms(8) by simp
  with b(2) a(3) assms(9) have ij': "i' = i" "j' = j" by simp_all
  have "coords'' = coords" using same_key_same_coords[OF assms(1) c(1)] a(1) assms(10) by simp
  with c(2) a(3) assms(11) have ij'': "i'' = i" "j'' = j" by simp_all
  have ex: "\<lparr>folder = name_a, file_class = file_class p, file_index = file_index p,
                x_offset = j * stride, y_offset = i * stride,
                patch_gt = patch_geotransform ar (ds_gt sensor_a) (j * stride) (i * stride)\<rparr> \<in> set imgs_a"
    if "ds_readable sensor_a (j * stride) (i * stride)"
    using sensor_patch_exists[OF assms(2) a(1,2,3) that] .
  show ?thesis
    using a b(3-5) c(3-5) ij' ij'' ex
    by (intro exI[of _ coords] exI[of _ i] exI[of _ j])
       (simp add: origin_def patch_geotransform_def)
qed

theorem patches_share_pixel_offset_witness:
  "\<exists>coords i j.
     (0, coords) \<in> set ([(0, [(1, 2)])] :: (int \<times> (nat \<times> nat) list) list) \<and>
     (0::nat) < length coords \<and> coords ! 0 = (i, j) \<and>
     (408::nat) = j * 204 \<and> (204::nat) = i * 204 \<and>
     origin (patch_geotransform exact_arith gt_truth 408 204) = (12240, - 6120)"
proof -
  let ?locs = "[(0, [(1, 2)])] :: (int \<times> (nat \<times> nat) list) list"
  let ?img = "\<lambda>n. \<lparr>folder = n, file_class = 0, file_index = 0, x_offset = 408, y_offset = 204,
                     patch_gt = patch_geotransform exact_arith gt_truth 408 204\<rparr>"
  have h1: "distinct (map fst ?locs)" by simp
  have h2: "extract_patches_for_sensor exact_arith ''sentinel2'' aligned_sensor (Some truth_ds) (Some truth_ds)
              ?locs 204 = Inr [?img ''sentinel2'']"
    by (simp add: extract_patches_for_sensor_def sensor_patch_def aligned_sensor_def Let_def)
  have h4: "extract_label_patches exact_arith (Some truth_ds) (Some truth_ds) ?locs 204
              = Inr [?img ''filtered'', ?img ''unfiltered'']"
    by (simp add: extract_label_patches_def label_patch_def truth_ds_def Let_def)
  have o: "origin (patch_geotransform exact_arith gt_truth 408 204) = (12240, - 6120)"
    by (simp add: origin_def patch_geotransform_def exact_arith_def gt_truth_def)
  from patches_share_pixel_offset[OF h1 h2 h2 h4, of "?img ''sentinel2''" "?img ''sentinel2''" "?img ''unfiltered''"]
  obtain coords i j where
    "(0, coords) \<in> set ?locs" "0 < length coords" "coords ! 0 = (i, j)" "(408::nat) = j * 204"
    "(204::nat) = i * 204"
    by auto
  with o show ?thesis by (intro exI[of _ coords] exI[of _ i] exI[of _ j]) simp
qed

end
